theory Spec2Isabelle
  imports Main
begin

section \<open>Time values and the 23:00 UTC boundary\<close>

text \<open>
  A JavaScript \<^verbatim>\<open>Date\<close> holds a time value: milliseconds since the epoch, every UTC day
  having exactly 86400000 of them. Time values are modelled as \<^typ>\<open>int\<close>; the instant that
  the source reads with \<^verbatim>\<open>new Date()\<close> is the explicit argument \<open>now\<close> (one instant per
  request). The finite range of \<^verbatim>\<open>Date\<close> (about 270000 years around the epoch) is not
  modelled.
\<close>

definition msPerHour :: int where
  "msPerHour = 3600000"

definition msPerDay :: int where
  "msPerDay = 86400000"

definition setUTCHours23 :: "int \<Rightarrow> int" where
  \<comment> \<open>\<^verbatim>\<open>d.setUTCHours(23, 0, 0, 0)\<close>: the day of \<open>d\<close> (floor division), at 23:00:00.000.\<close>
  "setUTCHours23 d = (d div msPerDay) * msPerDay + 23 * msPerHour"

definition addUTCDate :: "int \<Rightarrow> int \<Rightarrow> int" where
  \<comment> \<open>\<^verbatim>\<open>d.setUTCDate(d.getUTCDate() + k)\<close>: the same time of day, \<open>k\<close> days later.\<close>
  "addUTCDate d k = d + k * msPerDay"

text \<open>
  The \<^verbatim>\<open>cachedAt\<close> property of a cache entry, as the code looks at it: its truthiness
  and the time value of \<^verbatim>\<open>new Date(cachedAt)\<close>, which is \<^verbatim>\<open>NaN\<close> (here \<open>None\<close>) for an
  absent property and for text that is no date. Every comparison with \<^verbatim>\<open>NaN\<close> is false.
\<close>

datatype stamp =
    NoStamp       \<comment> \<open>the property is absent (\<^verbatim>\<open>undefined\<close>) or the empty string\<close>
  | BadStamp      \<comment> \<open>a non-empty string that \<^verbatim>\<open>Date\<close> cannot parse\<close>
  | Stamp int     \<comment> \<open>an ISO date string, as \<^verbatim>\<open>toISOString\<close> writes it, with its time value\<close>

fun truthyStamp :: "stamp \<Rightarrow> bool" where
  "truthyStamp NoStamp = False"
| "truthyStamp BadStamp = True"
| "truthyStamp (Stamp t) = True"

fun newDate :: "stamp \<Rightarrow> int option" where
  "newDate NoStamp = None"
| "newDate BadStamp = None"
| "newDate (Stamp t) = Some t"

section \<open>Server tier: freshness policy (api/index.js)\<close>

text \<open>
  The parsed cache payload. A property that is absent or falsy reads as \<open>NoStamp\<close> or
  \<open>None\<close>; the track list itself is kept abstract (\<open>'d\<close>).
\<close>

record 'd cacheData =
  cachedAt :: stamp
  tracks :: "'d option"

definition getNext11PMUTC :: "int \<Rightarrow> int" where
  "getNext11PMUTC now =
     (let next11PM = setUTCHours23 now
      in if now > next11PM then addUTCDate next11PM 1 else next11PM)"

fun shouldRefreshCache :: "'d cacheData option \<Rightarrow> int \<Rightarrow> bool" where
  "shouldRefreshCache None now = True"
| "shouldRefreshCache (Some cacheData) now =
     (if \<not> truthyStamp (cachedAt cacheData) then True
      else case newDate (cachedAt cacheData) of
             None \<Rightarrow> False
           | Some cacheDate \<Rightarrow>
               (let today11PM = setUTCHours23 now
                in if cacheDate < today11PM \<and> now > today11PM then True else False))"

fun isCacheValid :: "'d cacheData option \<Rightarrow> int \<Rightarrow> bool" where
  "isCacheValid None now = False"
| "isCacheValid (Some cacheData) now =
     (if \<not> truthyStamp (cachedAt cacheData) then False
      else case newDate (cachedAt cacheData) of
             None \<Rightarrow> False
           | Some cacheDate \<Rightarrow>
               (let today11PM = setUTCHours23 now;
                    yesterday11PM = addUTCDate today11PM (- 1)
                in cacheDate > yesterday11PM))"

section \<open>Client tier: freshness policy (src/hooks/useTracksData.ts)\<close>

definition CACHE_STALE_REFRESH_HOURS :: int where
  "CACHE_STALE_REFRESH_HOURS = 12"

definition isCacheValid_client :: "stamp \<Rightarrow> int \<Rightarrow> bool" where
  "isCacheValid_client cachedAtStr now =
     (case newDate cachedAtStr of
        None \<Rightarrow> False
      | Some cacheDate \<Rightarrow>
          (let today11PM = setUTCHours23 now;
               yesterday11PM = addUTCDate today11PM (- 1)
           in cacheDate > yesterday11PM))"

definition staleByCalendar :: "stamp \<Rightarrow> int \<Rightarrow> bool" where
  \<comment> \<open>The condition of the first \<^verbatim>\<open>if\<close> of \<^verbatim>\<open>isCacheStale\<close>.\<close>
  "staleByCalendar cachedAtStr now =
     (case newDate cachedAtStr of
        None \<Rightarrow> False
      | Some cacheDate \<Rightarrow>
          (let today11PM = setUTCHours23 now
           in cacheDate < today11PM \<and> now > today11PM))"

definition staleByAge :: "stamp \<Rightarrow> int \<Rightarrow> bool" where
  \<comment> \<open>\<^verbatim>\<open>diffInHours > CACHE_STALE_REFRESH_HOURS\<close>; the quotient of the source is a double,
      and exceeds 12 exactly when the difference exceeds twelve hours of milliseconds.\<close>
  "staleByAge cachedAtStr now =
     (case newDate cachedAtStr of
        None \<Rightarrow> False
      | Some cacheDate \<Rightarrow> now - cacheDate > CACHE_STALE_REFRESH_HOURS * msPerHour)"

definition isCacheStale :: "stamp \<Rightarrow> int \<Rightarrow> bool" where
  "isCacheStale cachedAtStr now =
     (if staleByCalendar cachedAtStr now then True else staleByAge cachedAtStr now)"

definition getTimeUntilNextRefresh_target :: "int \<Rightarrow> int" where
  \<comment> \<open>The instant \<^verbatim>\<open>nextRefresh\<close> of \<^verbatim>\<open>getTimeUntilNextRefresh\<close> and \<^verbatim>\<open>next11PM\<close> of
      \<^verbatim>\<open>getNextRefreshInfo\<close>: the client's copy of the server's computation.\<close>
  "getTimeUntilNextRefresh_target now =
     (let nextRefresh = setUTCHours23 now
      in if now > nextRefresh then addUTCDate nextRefresh 1 else nextRefresh)"

section \<open>Stored payloads\<close>

text \<open>
  Both tiers keep one JSON text under one key. A stored text is modelled by what
  \<^verbatim>\<open>JSON.parse\<close> makes of it: \<open>None\<close> when it raises \<^verbatim>\<open>SyntaxError\<close>, otherwise the
  parsed value, of which the code only distinguishes \<^verbatim>\<open>null\<close>, a record of properties,
  and any other value (a number, a boolean, a string, an array), whose properties all
  read as \<^verbatim>\<open>undefined\<close>.
\<close>

datatype 'r json = JNull | JOther | JObject 'r

text \<open>What one read and its side effects amount to: the value handed to the caller, the
  store afterwards, the number of source fetches and of cache writes performed.\<close>

record ('v, 's) outcome =
  result :: 'v
  store :: 's
  fetches :: nat
  saves :: nat

section \<open>Server tier: cache store and read path (api/index.js)\<close>

text \<open>The state of the key \<^verbatim>\<open>top_songs_cache\<close>, as what \<^verbatim>\<open>redis.get\<close> answers.\<close>

datatype 'd redis =
    ReplyError                           \<comment> \<open>the call rejects\<close>
  | ReplyFalsy                           \<comment> \<open>\<^verbatim>\<open>null\<close> (no such key) or another falsy value\<close>
  | ReplyString "'d cacheData json option" \<comment> \<open>a non-empty string\<close>
  | ReplyObject "'d cacheData"           \<comment> \<open>an object, already parsed by the client library\<close>
  | ReplyOther                           \<comment> \<open>a truthy number or boolean\<close>

fun expectedStructure :: "'d cacheData json \<Rightarrow> 'd cacheData option" where
  \<comment> \<open>\<^verbatim>\<open>parsedData && parsedData.cachedAt && parsedData.tracks\<close>\<close>
  "expectedStructure JNull = None"
| "expectedStructure JOther = None"
| "expectedStructure (JObject parsedData) =
     (if truthyStamp (cachedAt parsedData) \<and> tracks parsedData \<noteq> None
      then Some parsedData else None)"

fun loadFromCache :: "'d redis \<Rightarrow> 'd cacheData option \<times> 'd redis" where
  \<comment> \<open>The second component is the store afterwards: the function only sends \<^verbatim>\<open>GET\<close>.\<close>
  "loadFromCache ReplyError = (None, ReplyError)"
| "loadFromCache ReplyFalsy = (None, ReplyFalsy)"
| "loadFromCache (ReplyString None) = (None, ReplyString None)"
| "loadFromCache (ReplyString (Some parsedData)) =
     (expectedStructure parsedData, ReplyString (Some parsedData))"
| "loadFromCache (ReplyObject obj) = (expectedStructure (JObject obj), ReplyObject obj)"
| "loadFromCache ReplyOther = (None, ReplyOther)"

definition saveToCache :: "bool \<Rightarrow> int \<Rightarrow> 'd \<Rightarrow> 'd redis \<Rightarrow> 'd redis" where
  \<comment> \<open>\<open>setThrows\<close>: \<^verbatim>\<open>redis.set\<close> rejects; the error is logged and the store keeps its value.\<close>
  "saveToCache setThrows now newTracks st =
     (if setThrows then st
      else ReplyString (Some (JObject \<lparr>cachedAt = Stamp now, tracks = Some newTracks\<rparr>)))"

datatype 'd response =
    Json "'d option"    \<comment> \<open>\<^verbatim>\<open>res.json(v)\<close>, status 200; \<open>None\<close> is \<^verbatim>\<open>undefined\<close>\<close>
  | Status500           \<comment> \<open>\<^verbatim>\<open>res.status(500).json({ error: 'Failed to fetch song data' })\<close>\<close>

definition serveStale :: "'d redis \<Rightarrow> nat \<Rightarrow> ('d response, 'd redis) outcome" where
  \<comment> \<open>The \<^verbatim>\<open>catch\<close> block of the handler: the cache is loaded a second time.\<close>
  "serveStale st n =
     (let (cacheData, st') = loadFromCache st
      in case cacheData of
           None \<Rightarrow> \<lparr>result = Status500, store = st', fetches = n, saves = 0\<rparr>
         | Some cd \<Rightarrow>
             (case tracks cd of
                None \<Rightarrow> \<lparr>result = Status500, store = st', fetches = n, saves = 0\<rparr>
              | Some ts \<Rightarrow> \<lparr>result = Json (Some ts), store = st', fetches = n, saves = 0\<rparr>))"

definition fetchFresh ::
  "int \<Rightarrow> 'e + 'd \<Rightarrow> bool \<Rightarrow> 'd redis \<Rightarrow> ('d response, 'd redis) outcome" where
  \<comment> \<open>The handler from \<^verbatim>\<open>await fetchSongsData()\<close> on. \<open>fetched\<close> is what that call does:
      \<open>Inl\<close> is a thrown error, which the \<^verbatim>\<open>catch\<close> block receives.\<close>
  "fetchFresh now fetched setThrows st =
     (case fetched of
        Inr newTracks \<Rightarrow>
          \<lparr>result = Json (Some newTracks),
           store = saveToCache setThrows now newTracks st,
           fetches = 1, saves = 1\<rparr>
      | Inl err \<Rightarrow> serveStale st 1)"

definition topSongs ::
  "int \<Rightarrow> 'e + 'd \<Rightarrow> bool \<Rightarrow> 'd redis \<Rightarrow> ('d response, 'd redis) outcome" where
  \<comment> \<open>\<^verbatim>\<open>app.get('/api/top-songs', ...)\<close> after authentication.\<close>
  "topSongs now fetched setThrows st =
     (let (cacheData, st1) = loadFromCache st;
          needsRefresh = shouldRefreshCache cacheData now
      in case cacheData of
           Some cd \<Rightarrow>
             if isCacheValid cacheData now \<and> \<not> needsRefresh
             then \<lparr>result = Json (tracks cd), store = st1, fetches = 0, saves = 0\<rparr>
             else fetchFresh now fetched setThrows st1
         | None \<Rightarrow> fetchFresh now fetched setThrows st1)"

section \<open>Client tier: cache store and read path (src/hooks/useTracksData.ts)\<close>

record 'd cacheEntry =
  data :: "'d option"         \<comment> \<open>\<open>None\<close>: the property is absent\<close>
  entryCachedAt :: stamp      \<comment> \<open>the property \<^verbatim>\<open>cachedAt\<close>\<close>

text \<open>The state of the key \<^verbatim>\<open>peakplay_top_tracks_cache\<close> of \<^verbatim>\<open>localStorage\<close>.\<close>

datatype 'd localStorage =
    StorageError                        \<comment> \<open>the storage is unavailable: every access throws\<close>
  | NoItem                              \<comment> \<open>\<^verbatim>\<open>getItem\<close> gives \<^verbatim>\<open>null\<close> (or the empty string)\<close>
  | Item "'d cacheEntry json option"    \<comment> \<open>a non-empty text\<close>

fun loadFromCache_client ::
  "int \<Rightarrow> 'd localStorage \<Rightarrow> 'd cacheEntry option \<times> 'd localStorage" where
  "loadFromCache_client now StorageError = (None, StorageError)"
| "loadFromCache_client now NoItem = (None, NoItem)"
| "loadFromCache_client now (Item None) = (None, Item None)"
| "loadFromCache_client now (Item (Some JNull)) = (None, Item (Some JNull))"
| "loadFromCache_client now (Item (Some JOther)) =
     (if \<not> isCacheValid_client NoStamp now then (None, NoItem)
      else (Some \<lparr>data = None, entryCachedAt = NoStamp\<rparr>, Item (Some JOther)))"
| "loadFromCache_client now (Item (Some (JObject cacheEntry))) =
     (if \<not> isCacheValid_client (entryCachedAt cacheEntry) now then (None, NoItem)
      else (Some \<lparr>data = data cacheEntry, entryCachedAt = entryCachedAt cacheEntry\<rparr>,
            Item (Some (JObject cacheEntry))))"

definition saveToCache_client ::
  "bool \<Rightarrow> int \<Rightarrow> 'd \<Rightarrow> 'd localStorage \<Rightarrow> 'd localStorage" where
  \<comment> \<open>\<open>setThrows\<close>: \<^verbatim>\<open>setItem\<close> throws; the write fails silently.\<close>
  "saveToCache_client setThrows now newData st =
     (if setThrows then st
      else Item (Some (JObject \<lparr>data = Some newData, entryCachedAt = Stamp now\<rparr>)))"

datatype 'e failure =
    FetchFailed 'e      \<comment> \<open>the error thrown by \<^verbatim>\<open>fetchTopTracksFromApi\<close>\<close>
  | TypeError           \<comment> \<open>\<^verbatim>\<open>tracks.slice\<close> on \<^verbatim>\<open>undefined\<close>\<close>

datatype ('e, 'd) view =
    Shown 'd stamp             \<comment> \<open>\<^verbatim>\<open>allTracksData\<close> and \<^verbatim>\<open>cacheUpdatedAt\<close>, \<^verbatim>\<open>error\<close> is null\<close>
  | ErrorShown "'e failure"    \<comment> \<open>\<^verbatim>\<open>error\<close> is set and every list is emptied\<close>

fun applyTracksToState :: "int \<Rightarrow> 'd option \<Rightarrow> stamp \<Rightarrow> ('e, 'd) view" where
  "applyTracksToState now None cachedAtStr = ErrorShown TypeError"
| "applyTracksToState now (Some ts) cachedAtStr =
     Shown ts (if truthyStamp cachedAtStr then cachedAtStr else Stamp now)"

definition fetchFresh_client ::
  "int \<Rightarrow> 'e + 'd \<Rightarrow> bool \<Rightarrow> 'd cacheEntry option \<Rightarrow> 'd localStorage \<Rightarrow>
   (('e, 'd) view, 'd localStorage) outcome" where
  \<comment> \<open>The inner \<^verbatim>\<open>try\<close> of \<^verbatim>\<open>loadTracks\<close> with its \<^verbatim>\<open>catch\<close>. \<open>fetched\<close> is what
      \<^verbatim>\<open>fetchTopTracksFromApi()\<close> does: \<open>Inl\<close> is a thrown error.\<close>
  "fetchFresh_client now fetched setThrows cached st =
     (case fetched of
        Inr freshTracks \<Rightarrow>
          \<lparr>result = applyTracksToState now (Some freshTracks) (Stamp now),
           store = saveToCache_client setThrows now freshTracks st,
           fetches = 1, saves = 1\<rparr>
      | Inl fetchError \<Rightarrow>
          (case cached of
             Some c \<Rightarrow>
               \<lparr>result = applyTracksToState now (data c) (entryCachedAt c),
                store = st, fetches = 1, saves = 0\<rparr>
           | None \<Rightarrow>
               \<lparr>result = ErrorShown (FetchFailed fetchError),
                store = st, fetches = 1, saves = 0\<rparr>))"

definition loadTracks ::
  "int \<Rightarrow> 'e + 'd \<Rightarrow> bool \<Rightarrow> 'd localStorage \<Rightarrow> (('e, 'd) view, 'd localStorage) outcome" where
  "loadTracks now fetched setThrows st =
     (let (cached, st1) = loadFromCache_client now st;
          shouldForceRefresh =
            (case cached of Some c \<Rightarrow> isCacheStale (entryCachedAt c) now | None \<Rightarrow> True)
      in case cached of
           Some c \<Rightarrow>
             if \<not> shouldForceRefresh
             then \<lparr>result = applyTracksToState now (data c) (entryCachedAt c),
                   store = st1, fetches = 0, saves = 0\<rparr>
             else fetchFresh_client now fetched setThrows cached st1
         | None \<Rightarrow> fetchFresh_client now fetched setThrows cached st1)"

section \<open>Strings\<close>

fun startsWith :: "string \<Rightarrow> string \<Rightarrow> bool" where
  \<comment> \<open>\<open>startsWith sep s\<close>: the text \<open>s\<close> begins with \<open>sep\<close>.\<close>
  "startsWith [] s = True"
| "startsWith (p # ps) [] = False"
| "startsWith (p # ps) (c # cs) = (p = c \<and> startsWith ps cs)"

function js_split :: "string \<Rightarrow> string \<Rightarrow> string list" where
  \<comment> \<open>\<^verbatim>\<open>s.split(sep)\<close> for a non-empty separator: the text is cut at each occurrence of
      \<open>sep\<close>, found from left to right without overlap; the result is never empty.\<close>
  "js_split sep [] = [[]]"
| "js_split sep (c # cs) =
     (if sep \<noteq> [] \<and> startsWith sep (c # cs)
      then [] # js_split sep (drop (length sep) (c # cs))
      else (case js_split sep cs of
              part # parts \<Rightarrow> (c # part) # parts
            | [] \<Rightarrow> [[c]]))"
  by pat_completeness auto
termination
  by (relation "measure (\<lambda>(sep, s). length s)") auto

fun element :: "'a list \<Rightarrow> nat \<Rightarrow> 'a option" where
  \<comment> \<open>\<^verbatim>\<open>xs[i]\<close>, \<open>None\<close> for \<^verbatim>\<open>undefined\<close> beyond the end.\<close>
  "element [] i = None"
| "element (x # xs) 0 = Some x"
| "element (x # xs) (Suc i) = element xs i"

section \<open>Server tier: authentication (api/index.js)\<close>

datatype authResult =
    Rejected nat string    \<comment> \<open>\<^verbatim>\<open>res.status(code).json({ error: ... })\<close>\<close>
  | Next                   \<comment> \<open>\<^verbatim>\<open>next()\<close>: the request reaches the handler\<close>

definition authenticateToken :: "string \<Rightarrow> string option \<Rightarrow> authResult" where
  \<comment> \<open>\<open>authHeader\<close> is \<^verbatim>\<open>req.headers['authorization']\<close>, \<open>None\<close> when the header is absent.\<close>
  "authenticateToken API_TOKEN authHeader =
     (case authHeader of
        None \<Rightarrow> Rejected 401 ''No authorization header provided''
      | Some h \<Rightarrow>
          if h = [] then Rejected 401 ''No authorization header provided''
          else (case element (js_split '' '' h) 1 of
                  None \<Rightarrow> Rejected 401 ''Invalid authorization header format''
                | Some token \<Rightarrow>
                    if token = [] then Rejected 401 ''Invalid authorization header format''
                    else if token \<noteq> API_TOKEN then Rejected 403 ''Invalid or expired token''
                    else Next))"

section \<open>Numbers\<close>

text \<open>
  A JavaScript \<^verbatim>\<open>number\<close> is an IEEE 754 double: \<^verbatim>\<open>NaN\<close>, one of the two infinities, or
  a finite value \<open>m \<times> 2\<^sup>e\<close>, written \<open>Finite m e\<close>. The finite doubles are the values with
  \<open>\<bar>m\<bar> < 2\<^sup>5\<^sup>3\<close> and \<open>-1074 \<le> e \<le> 971\<close>; one value has several such pairs. The two zeros
  are one value here: subtraction, \<^verbatim>\<open>Math.abs\<close> and \<^verbatim>\<open><=\<close> do not tell them apart in
  what follows. A property that is absent reads as \<^verbatim>\<open>undefined\<close>, which arithmetic turns
  into \<^verbatim>\<open>NaN\<close>.
\<close>

datatype number = NaN | PosInfinity | NegInfinity | Finite int int

fun isDouble :: "number \<Rightarrow> bool" where
  "isDouble (Finite m e) = (\<bar>m\<bar> < 2 ^ 53 \<and> - 1074 \<le> e \<and> e \<le> 971)"
| "isDouble x = True"

definition ofInt :: "int \<Rightarrow> number" where
  \<comment> \<open>The number with an integer value.\<close>
  "ofInt w = Finite w 0"

definition scaled :: "int \<Rightarrow> int \<Rightarrow> int \<Rightarrow> int" where
  \<comment> \<open>\<open>m \<times> 2\<^sup>e\<close> as a multiple of \<open>2\<^sup>e\<^sup>0\<close>, for \<open>e0 \<le> e\<close>.\<close>
  "scaled m e e0 = m * 2 ^ nat (e - e0)"

function bitlen :: "int \<Rightarrow> nat" where
  \<comment> \<open>The number of binary digits of a positive integer.\<close>
  "bitlen n = (if n \<le> 0 then 0 else Suc (bitlen (n div 2)))"
  by pat_completeness auto
termination
  by (relation "measure nat") auto

declare bitlen.simps [simp del]

definition nearestEven :: "int \<Rightarrow> nat \<Rightarrow> int" where
  \<comment> \<open>\<open>n / 2\<^sup>k\<close> rounded to the nearest integer, a tie going to the even neighbour.\<close>
  "nearestEven n k =
     (let q = n div 2 ^ k;
          r = n mod 2 ^ k
      in if 2 * r > 2 ^ k \<or> (2 * r = 2 ^ k \<and> odd q) then q + 1 else q)"

definition roundToDouble :: "int \<Rightarrow> int \<Rightarrow> number" where
  \<comment> \<open>The double nearest to the exact value \<open>x \<times> 2\<^sup>e\<close>, for \<open>-1074 \<le> e\<close>: the magnitude
      keeps its 53 leading binary digits, rounded to nearest with ties to even, and a
      result of \<open>2\<^sup>1\<^sup>0\<^sup>2\<^sup>4\<close> or more is an infinity.\<close>
  "roundToDouble x e =
     (let n = \<bar>x\<bar>;
          k = bitlen n - 53;
          q = nearestEven n k
      in if int (bitlen q) + int k + e > 1024
         then (if x < 0 then NegInfinity else PosInfinity)
         else if q = 2 ^ 53
         then Finite (if x < 0 then - (2 ^ 52) else 2 ^ 52) (e + int k + 1)
         else Finite (if x < 0 then - q else q) (e + int k))"

fun js_sub :: "number \<Rightarrow> number \<Rightarrow> number" where
  \<comment> \<open>\<^verbatim>\<open>x - y\<close>\<close>
  "js_sub NaN y = NaN"
| "js_sub x NaN = NaN"
| "js_sub PosInfinity PosInfinity = NaN"
| "js_sub NegInfinity NegInfinity = NaN"
| "js_sub PosInfinity y = PosInfinity"
| "js_sub NegInfinity y = NegInfinity"
| "js_sub (Finite a ea) PosInfinity = NegInfinity"
| "js_sub (Finite a ea) NegInfinity = PosInfinity"
| "js_sub (Finite a ea) (Finite b eb) =
     (let e = min ea eb in roundToDouble (scaled a ea e - scaled b eb e) e)"

fun js_abs :: "number \<Rightarrow> number" where
  \<comment> \<open>\<^verbatim>\<open>Math.abs(x)\<close>\<close>
  "js_abs NaN = NaN"
| "js_abs PosInfinity = PosInfinity"
| "js_abs NegInfinity = PosInfinity"
| "js_abs (Finite a ea) = Finite \<bar>a\<bar> ea"

fun js_le :: "number \<Rightarrow> number \<Rightarrow> bool" where
  \<comment> \<open>\<^verbatim>\<open>x <= y\<close>: false as soon as one side is \<^verbatim>\<open>NaN\<close>.\<close>
  "js_le NaN y = False"
| "js_le x NaN = False"
| "js_le NegInfinity y = True"
| "js_le x PosInfinity = True"
| "js_le PosInfinity y = False"
| "js_le (Finite a ea) NegInfinity = False"
| "js_le (Finite a ea) (Finite b eb) =
     (let e = min ea eb in scaled a ea e \<le> scaled b eb e)"

section \<open>Client tier: image selection (src/utils/ImageTools.ts)\<close>

text \<open>The interface \<^verbatim>\<open>TrackImage\<close> of the client's types.\<close>

record TrackImage =
  ti_url :: string
  ti_width :: number
  ti_height :: number

definition closer :: "number \<Rightarrow> TrackImage \<Rightarrow> TrackImage \<Rightarrow> TrackImage" where
  \<comment> \<open>The callback handed to \<^verbatim>\<open>reduce\<close>.\<close>
  "closer targetWidth closest current =
     (let currentDiff = js_abs (js_sub (ti_width current) targetWidth);
          closestDiff = js_abs (js_sub (ti_width closest) targetWidth)
      in if js_le currentDiff closestDiff then current else closest)"

definition js_reduce :: "('b \<Rightarrow> 'a \<Rightarrow> 'b) \<Rightarrow> 'b \<Rightarrow> 'a list \<Rightarrow> 'b \<times> 'a list" where
  \<comment> \<open>\<^verbatim>\<open>arr.reduce(callback, initialValue)\<close> for a callback that only computes a value:
      every element is visited once, in index order. The second component is the array
      afterwards.\<close>
  "js_reduce callback initialValue arr = (foldl callback initialValue arr, arr)"

definition getImageByWidth ::
  "TrackImage list \<Rightarrow> number \<Rightarrow> TrackImage option \<times> TrackImage list" where
  \<comment> \<open>The value returned (\<open>None\<close> for \<^verbatim>\<open>null\<close>) and the array \<^verbatim>\<open>images\<close> afterwards.\<close>
  "getImageByWidth imgs targetWidth =
     (case imgs of
        [] \<Rightarrow> (None, imgs)
      | first # rest \<Rightarrow>
          (let (found, imgs') = js_reduce (closer targetWidth) first imgs
           in (Some found, imgs')))"

section \<open>Server tier: the source fetch (api/index.js)\<close>

text \<open>One row of the scraped table, as the selectors and \<^verbatim>\<open>parseInt\<close> deliver its cells;
  \<open>trackIdMatch\<close> is the group matched by \<^verbatim>\<open>/track\/([^\/]+)\.html/\<close> in the link, or the
  empty string without a match.\<close>

record row =
  rankCol :: int
  changeCol :: string
  artistText :: string
  titleText :: string
  trackIdMatch :: string
  daysCol :: int
  peakCol :: int
  dailyCol :: int
  totalCol :: int

record trackBase =
  position :: int
  positionChange :: string
  title :: string
  url :: string
  days :: int
  peakPosition :: int
  dailyStreams :: int
  totalStreams :: int

record scrapedTrack = trackBase +
  artist :: string

record artistRef =
  artist_name :: string
  artist_url :: string

record trackImage =
  image_url :: string
  width :: int
  height :: int

record track = trackBase +
  artists :: "artistRef list"
  images :: "trackImage list"

text \<open>What the secondary source returns for one track.\<close>

record spotifyArtist =
  sp_name :: string
  sp_external_url :: "string option"   \<comment> \<open>\<^verbatim>\<open>external_urls?.spotify\<close>\<close>
  sp_artist_id :: string

record spotifyImage =
  sp_image_url :: string
  sp_width :: "int option"             \<comment> \<open>\<open>None\<close>: \<^verbatim>\<open>null\<close>\<close>
  sp_height :: "int option"

record spotifyTrack =
  sp_id :: string
  sp_artists :: "spotifyArtist list"
  sp_album_images :: "spotifyImage list option"   \<comment> \<open>\<^verbatim>\<open>album?.images\<close>\<close>

datatype sdkResponse =
    Several "spotifyTrack option list"   \<comment> \<open>an array; \<open>None\<close> is a \<^verbatim>\<open>null\<close> element\<close>
  | Single spotifyTrack

datatype fetchError = SourceUnavailable

definition scrapeRow :: "row \<Rightarrow> scrapedTrack" where
  "scrapeRow r =
     \<lparr>position = rankCol r, positionChange = changeCol r, title = titleText r,
      url = (if trackIdMatch r \<noteq> [] then ''https://open.spotify.com/track/'' @ trackIdMatch r
             else []),
      days = daysCol r, peakPosition = peakCol r,
      dailyStreams = dailyCol r, totalStreams = totalCol r,
      artist = artistText r\<rparr>"

fun tracksData :: "sdkResponse \<Rightarrow> spotifyTrack option list" where
  \<comment> \<open>\<^verbatim>\<open>Array.isArray(response) ? response : [response]\<close>\<close>
  "tracksData (Several ts) = ts"
| "tracksData (Single t) = [Some t]"

fun remember :: "(string \<rightharpoonup> spotifyTrack) \<Rightarrow> spotifyTrack option \<Rightarrow> (string \<rightharpoonup> spotifyTrack)" where
  \<comment> \<open>\<^verbatim>\<open>if (track && track.id) spotifyData.set(track.id, track)\<close>\<close>
  "remember spotifyData None = spotifyData"
| "remember spotifyData (Some t) =
     (if sp_id t \<noteq> [] then spotifyData(sp_id t \<mapsto> t) else spotifyData)"

function batchLoop ::
  "(nat \<Rightarrow> string list \<Rightarrow> sdkResponse option) \<Rightarrow> string list \<Rightarrow> nat \<Rightarrow>
   (string \<rightharpoonup> spotifyTrack) \<Rightarrow> (string \<rightharpoonup> spotifyTrack)" where
  \<comment> \<open>\<^verbatim>\<open>for (let i = 0; i < trackIds.length; i += 50)\<close>. \<open>tracksGet i batch\<close> is what
      \<^verbatim>\<open>spotifySDK.tracks.get(batch)\<close> does for the batch starting at \<open>i\<close>: \<open>None\<close> when it
      throws.\<close>
  "batchLoop tracksGet trackIds i spotifyData =
     (if i < length trackIds
      then (let batch = take 50 (drop i trackIds)
            in batchLoop tracksGet trackIds (i + 50)
                 (case tracksGet i batch of
                    None \<Rightarrow> spotifyData
                  | Some response \<Rightarrow> foldl remember spotifyData (tracksData response)))
      else spotifyData)"
  by pat_completeness auto
termination
  by (relation "measure (\<lambda>(tracksGet, trackIds, i, spotifyData). length trackIds - i)") auto

declare batchLoop.simps [simp del]

definition enrichedArtist :: "spotifyArtist \<Rightarrow> artistRef" where
  "enrichedArtist a =
     \<lparr>artist_name = sp_name a,
      artist_url = (case sp_external_url a of
                      None \<Rightarrow> ''https://open.spotify.com/artist/'' @ sp_artist_id a
                    | Some u \<Rightarrow> if u \<noteq> [] then u
                               else ''https://open.spotify.com/artist/'' @ sp_artist_id a)\<rparr>"

definition enrichedImage :: "spotifyImage \<Rightarrow> trackImage" where
  "enrichedImage img =
     \<lparr>image_url = sp_image_url img,
      width = (case sp_width img of None \<Rightarrow> 0 | Some w \<Rightarrow> w),
      height = (case sp_height img of None \<Rightarrow> 0 | Some h \<Rightarrow> h)\<rparr>"

definition withSpotify :: "scrapedTrack \<Rightarrow> spotifyTrack \<Rightarrow> track" where
  "withSpotify t spotifyTrack =
     \<lparr>position = position t, positionChange = positionChange t, title = title t,
      url = url t, days = days t, peakPosition = peakPosition t,
      dailyStreams = dailyStreams t, totalStreams = totalStreams t,
      artists = map enrichedArtist (sp_artists spotifyTrack),
      images = (case sp_album_images spotifyTrack of
                  None \<Rightarrow> []
                | Some imgs \<Rightarrow> map enrichedImage imgs)\<rparr>"

definition withScraped :: "scrapedTrack \<Rightarrow> track" where
  "withScraped t =
     \<lparr>position = position t, positionChange = positionChange t, title = title t,
      url = url t, days = days t, peakPosition = peakPosition t,
      dailyStreams = dailyStreams t, totalStreams = totalStreams t,
      artists = [\<lparr>artist_name = artist t, artist_url = []\<rparr>],
      images = []\<rparr>"

definition enrich :: "(string \<rightharpoonup> spotifyTrack) \<Rightarrow> scrapedTrack \<Rightarrow> track" where
  \<comment> \<open>The callback of \<^verbatim>\<open>tracks.forEach\<close>.\<close>
  "enrich spotifyData t =
     (case element (js_split ''/track/'' (url t)) 1 of
        None \<Rightarrow> withScraped t
      | Some trackId \<Rightarrow>
          if trackId \<noteq> [] then
            (case spotifyData trackId of
               Some spotifyTrack \<Rightarrow> withSpotify t spotifyTrack
             | None \<Rightarrow> withScraped t)
          else withScraped t)"

definition fetchSongsData ::
  "row list option \<Rightarrow> (nat \<Rightarrow> string list \<Rightarrow> sdkResponse option) \<Rightarrow> fetchError + track list" where
  \<comment> \<open>\<open>page\<close>: the rows of the table in the document that \<^verbatim>\<open>axios.get\<close> returned, \<open>None\<close>
      when the request throws.\<close>
  "fetchSongsData page tracksGet =
     (case page of
        None \<Rightarrow> Inl SourceUnavailable
      | Some tableRows \<Rightarrow>
          (let rows100 = take 100 tableRows;
               scraped = map scrapeRow rows100;
               trackIds = filter (\<lambda>trackId. trackId \<noteq> []) (map trackIdMatch rows100);
               spotifyData = batchLoop tracksGet trackIds 0 Map.empty
           in Inr (map (enrich spotifyData) scraped)))"

section \<open>The batches of a fetch\<close>

text \<open>
  To speak about one run of the batch loop: the calls it makes, and the tracks that the
  calls that succeed deliver, in the order in which the loop stores them.
\<close>

definition scrapedTrackIds :: "row list \<Rightarrow> string list" where
  \<comment> \<open>The list \<^verbatim>\<open>trackIds\<close> that the scrape loop collects.\<close>
  "scrapedTrackIds tableRows =
     filter (\<lambda>trackId. trackId \<noteq> []) (map trackIdMatch (take 100 tableRows))"

definition batchCalls :: "string list \<Rightarrow> (nat \<times> string list) list" where
  \<comment> \<open>The start index and the identifiers of every batch, in the order of the calls.\<close>
  "batchCalls trackIds =
     map (\<lambda>k. (50 * k, take 50 (drop (50 * k) trackIds)))
       [0..<(length trackIds + 49) div 50]"

fun kept :: "spotifyTrack option list \<Rightarrow> spotifyTrack list" where
  \<comment> \<open>The elements of a response that have an id.\<close>
  "kept [] = []"
| "kept (None # ts) = kept ts"
| "kept (Some t # ts) = (if sp_id t \<noteq> [] then t # kept ts else kept ts)"

definition deliveredBy ::
  "(nat \<Rightarrow> string list \<Rightarrow> sdkResponse option) \<Rightarrow> nat \<times> string list \<Rightarrow> spotifyTrack list" where
  \<comment> \<open>What one call delivers: nothing when it throws.\<close>
  "deliveredBy tracksGet call =
     (case tracksGet (fst call) (snd call) of
        None \<Rightarrow> []
      | Some response \<Rightarrow> kept (tracksData response))"

definition delivered ::
  "(nat \<Rightarrow> string list \<Rightarrow> sdkResponse option) \<Rightarrow> string list \<Rightarrow> spotifyTrack list" where
  "delivered tracksGet trackIds = concat (map (deliveredBy tracksGet) (batchCalls trackIds))"

definition lastDelivered ::
  "(nat \<Rightarrow> string list \<Rightarrow> sdkResponse option) \<Rightarrow> string list \<Rightarrow> string \<Rightarrow> spotifyTrack option" where
  \<comment> \<open>The track delivered last under the identifier \<open>k\<close>, if any was.\<close>
  "lastDelivered tracksGet trackIds k =
     find (\<lambda>t. sp_id t = k) (rev (delivered tracksGet trackIds))"

section \<open>Example data\<close>

text \<open>A chart page of 51 rows with the identifiers \<open>t\<close>, \<open>tx\<close>, \<open>txx\<close>, \<open>\<dots>\<close>, what the
  secondary source knows about a track, and two behaviours of that source: in both the
  first batch of 50 fails; the second batch of one succeeds and returns either its track
  or \<^verbatim>\<open>null\<close>, the answer for an identifier the source does not know.\<close>

definition exampleRow :: "nat \<Rightarrow> row" where
  "exampleRow n =
     \<lparr>rankCol = int n + 1, changeCol = ''='', artistText = ''Scraped Artist'',
      titleText = ''Song'', trackIdMatch = CHR ''t'' # replicate n (CHR ''x''),
      daysCol = 3, peakCol = 1, dailyCol = 1000, totalCol = 5000\<rparr>"

definition examplePage :: "row list" where
  "examplePage = map exampleRow [0..<51]"

definition exampleSpotifyTrack :: "string \<Rightarrow> spotifyTrack" where
  "exampleSpotifyTrack k =
     \<lparr>sp_id = k,
      sp_artists =
        [\<lparr>sp_name = ''Spotify Artist'', sp_external_url = None, sp_artist_id = ''a1''\<rparr>],
      sp_album_images =
        Some [\<lparr>sp_image_url = ''cover'', sp_width = Some 300, sp_height = None\<rparr>]\<rparr>"

definition firstBatchFails :: "nat \<Rightarrow> string list \<Rightarrow> sdkResponse option" where
  "firstBatchFails i batch =
     (if i = 0 then None else Some (Several (map (\<lambda>k. Some (exampleSpotifyTrack k)) batch)))"

definition firstBatchFailsSecondUnknown :: "nat \<Rightarrow> string list \<Rightarrow> sdkResponse option" where
  "firstBatchFailsSecondUnknown i batch =
     (if i = 0 then None else Some (Several (map (\<lambda>k. None) batch)))"

definition exampleFallback :: "nat \<Rightarrow> track" where
  \<comment> \<open>Row \<open>n\<close> of the page with the scraped artist and no images.\<close>
  "exampleFallback n =
     \<lparr>position = int n + 1, positionChange = ''='', title = ''Song'',
      url = ''https://open.spotify.com/track/'' @ CHR ''t'' # replicate n (CHR ''x''),
      days = 3, peakPosition = 1, dailyStreams = 1000, totalStreams = 5000,
      artists = [\<lparr>artist_name = ''Scraped Artist'', artist_url = []\<rparr>],
      images = []\<rparr>"

definition exampleEnriched :: "nat \<Rightarrow> track" where
  \<comment> \<open>Row \<open>n\<close> of the page with the artists and images of \<open>exampleSpotifyTrack\<close>.\<close>
  "exampleEnriched n =
     \<lparr>position = int n + 1, positionChange = ''='', title = ''Song'',
      url = ''https://open.spotify.com/track/'' @ CHR ''t'' # replicate n (CHR ''x''),
      days = 3, peakPosition = 1, dailyStreams = 1000, totalStreams = 5000,
      artists = [\<lparr>artist_name = ''Spotify Artist'',
                  artist_url = ''https://open.spotify.com/artist/a1''\<rparr>],
      images = [\<lparr>image_url = ''cover'', width = 300, height = 0\<rparr>]\<rparr>"

section \<open>Definitions that follow the wording of the specification\<close>

definition CutoverInstant :: "int \<Rightarrow> int" where
  \<comment> \<open>23:00 UTC of the calendar date of \<open>now\<close>.\<close>
  "CutoverInstant now = now - now mod msPerDay + 23 * msPerHour"

definition spec_isDue :: "int \<Rightarrow> int \<Rightarrow> bool" where
  "spec_isDue t now = (t < CutoverInstant now \<and> now \<ge> CutoverInstant now)"

definition spec_isValid :: "int \<Rightarrow> int \<Rightarrow> bool" where
  "spec_isValid t now = (t > CutoverInstant now - msPerDay)"

definition spec_nextCutover :: "int \<Rightarrow> int" where
  \<comment> \<open>Today's 23:00 UTC if \<open>now\<close> is before it, otherwise tomorrow's.\<close>
  "spec_nextCutover now =
     (if now < CutoverInstant now then CutoverInstant now else CutoverInstant now + msPerDay)"

definition isWhitespace :: "char \<Rightarrow> bool" where
  \<comment> \<open>Space, tab, line feed, carriage return.\<close>
  "isWhitespace c = (c = CHR '' '' \<or> c = CHR 0x09 \<or> c = CHR 0x0A \<or> c = CHR 0x0D)"

fun spec_tokens :: "string \<Rightarrow> string \<Rightarrow> string list" where
  \<comment> \<open>\<open>spec_tokens [] s\<close>: the whitespace-separated tokens of \<open>s\<close>, the maximal runs of
      characters that are not whitespace; the first argument is the token being read,
      reversed.\<close>
  "spec_tokens cur [] = (if cur = [] then [] else [rev cur])"
| "spec_tokens cur (c # cs) =
     (if isWhitespace c
      then (if cur = [] then spec_tokens [] cs else rev cur # spec_tokens [] cs)
      else spec_tokens (c # cur) cs)"

definition spec_secondToken :: "string \<Rightarrow> string option" where
  "spec_secondToken h = element (spec_tokens [] h) 1"

definition spec_absDiff :: "int \<Rightarrow> number \<Rightarrow> number \<Rightarrow> int option" where
  \<comment> \<open>The absolute difference of two finite numbers, exact, as a multiple of \<open>2\<^sup>e\<^sup>0\<close>
      (for \<open>e0\<close> not above their exponents).\<close>
  "spec_absDiff e0 x y =
     (case (x, y) of
        (Finite a ea, Finite b eb) \<Rightarrow> Some \<bar>scaled a ea e0 - scaled b eb e0\<bar>
      | _ \<Rightarrow> None)"

section \<open>Properties of the boundary\<close>

lemma setUTCHours23_eq_CutoverInstant: "setUTCHours23 now = CutoverInstant now"
  by (simp add: setUTCHours23_def CutoverInstant_def minus_mod_eq_div_mult [symmetric] algebra_simps)

lemma CutoverInstant_idem: "CutoverInstant (CutoverInstant now) = CutoverInstant now"
proof -
  have "(now - now mod msPerDay + 23 * msPerHour) mod msPerDay
        = ((now div msPerDay) * msPerDay + 23 * msPerHour) mod msPerDay"
    by (simp add: minus_mod_eq_div_mult)
  also have "\<dots> = (23 * msPerHour) mod msPerDay"
    by simp
  also have "\<dots> = 23 * msPerHour"
    by (simp add: msPerDay_def msPerHour_def)
  finally show ?thesis
    by (simp add: CutoverInstant_def)
qed

section \<open>Freshness policy\<close>

subsection \<open>Due for refresh\<close>

text \<open>
  Claim C1, as the code has it. For an entry stamped \<open>t\<close>, \<^verbatim>\<open>shouldRefreshCache\<close> (server)
  and the calendar clause of \<^verbatim>\<open>isCacheStale\<close> (client) are true if and only if \<open>t\<close> precedes
  23:00 UTC of the date of \<open>now\<close> and \<open>now\<close> is strictly after that instant. At the cutover
  instant itself both are false, whatever \<open>t\<close> is.
\<close>

theorem C1_due_only_strictly_after_cutover:
  "shouldRefreshCache (Some \<lparr>cachedAt = Stamp t, tracks = ts\<rparr>) now
     = (t < CutoverInstant now \<and> now > CutoverInstant now)
   \<and> staleByCalendar (Stamp t) now = (t < CutoverInstant now \<and> now > CutoverInstant now)
   \<and> shouldRefreshCache (Some \<lparr>cachedAt = Stamp t, tracks = ts\<rparr>) (CutoverInstant now) = False
   \<and> staleByCalendar (Stamp t) (CutoverInstant now) = False"
  by (simp add: staleByCalendar_def setUTCHours23_eq_CutoverInstant CutoverInstant_idem Let_def)

text \<open>
  An entry of 4 January 2025, 23:30 UTC, read on 5 January at 23:30 UTC, is due on both
  tiers: the boundary of 5 January, 23:00 UTC, lies between the two instants.
\<close>

theorem C1_due_after_cutover_witness:
  "shouldRefreshCache (Some \<lparr>cachedAt = Stamp 1736033400000, tracks = Some ()\<rparr>) 1736119800000
   \<and> staleByCalendar (Stamp 1736033400000) 1736119800000
   \<and> CutoverInstant 1736119800000 = 1736118000000"
  using C1_due_only_strictly_after_cutover [of 1736033400000 "Some ()" 1736119800000]
  by (simp add: CutoverInstant_def msPerDay_def msPerHour_def)

text \<open>
  The same entry read at 23:00:00.000 UTC of 5 January exactly: the specification's
  \<open>isDue\<close>, which compares with \<open>\<ge>\<close>, holds, and neither tier refreshes.
\<close>

theorem C1_not_due_at_cutover_instant:
  "CutoverInstant 1736118000000 = 1736118000000
   \<and> spec_isDue 1736033400000 1736118000000
   \<and> \<not> shouldRefreshCache (Some \<lparr>cachedAt = Stamp 1736033400000, tracks = Some ()\<rparr>) 1736118000000
   \<and> \<not> staleByCalendar (Stamp 1736033400000) 1736118000000"
  by (simp add: spec_isDue_def staleByCalendar_def setUTCHours23_def CutoverInstant_def
      msPerDay_def msPerHour_def Let_def)

subsection \<open>The next boundary\<close>

text \<open>
  Claim C7, as the code has it. \<^verbatim>\<open>getNext11PMUTC\<close> returns 23:00 UTC of the date of \<open>now\<close>
  when \<open>now\<close> is at or before that instant, and 23:00 UTC of the following day when \<open>now\<close>
  is strictly after it; the client computes the same instant.
\<close>

theorem C7_next_cutover_today_until_passed:
  "getNext11PMUTC now =
     (if now \<le> CutoverInstant now then CutoverInstant now else CutoverInstant now + msPerDay)
   \<and> getTimeUntilNextRefresh_target now = getNext11PMUTC now"
  by (simp add: getNext11PMUTC_def getTimeUntilNextRefresh_target_def addUTCDate_def
      setUTCHours23_eq_CutoverInstant Let_def)

text \<open>On 5 January 2025: at 08:00, at 23:00 and at 23:30 UTC.\<close>

theorem C7_next_cutover_witness:
  "getNext11PMUTC 1736064000000 = 1736118000000
   \<and> getNext11PMUTC 1736118000000 = 1736118000000
   \<and> getNext11PMUTC 1736119800000 = 1736204400000"
  using C7_next_cutover_today_until_passed [of 1736064000000]
    C7_next_cutover_today_until_passed [of 1736118000000]
    C7_next_cutover_today_until_passed [of 1736119800000]
  by (simp add: CutoverInstant_def msPerDay_def msPerHour_def)

text \<open>
  At 23:00:00.000 UTC of 5 January exactly the specification names the boundary of
  6 January; the code returns the present instant.
\<close>

theorem C7_cutover_instant_is_its_own_next:
  "CutoverInstant 1736118000000 = 1736118000000
   \<and> spec_nextCutover 1736118000000 = 1736204400000
   \<and> getNext11PMUTC 1736118000000 = 1736118000000"
  by (simp add: spec_nextCutover_def getNext11PMUTC_def setUTCHours23_def addUTCDate_def
      CutoverInstant_def msPerDay_def msPerHour_def)

subsection \<open>Validity\<close>

text \<open>
  Claim C2. On both tiers \<^verbatim>\<open>isCacheValid\<close> holds of an entry stamped \<open>t\<close> if and only if \<open>t\<close>
  is after 23:00 UTC of the day before \<open>now\<close>. An absent entry and an entry without
  \<^verbatim>\<open>cachedAt\<close> are not valid, and a read that finds either calls the source.
\<close>

theorem C2_valid_iff_after_yesterdays_cutover:
  "isCacheValid (Some \<lparr>cachedAt = Stamp t, tracks = ts\<rparr>) now = spec_isValid t now
   \<and> isCacheValid_client (Stamp t) now = spec_isValid t now
   \<and> isCacheValid (None :: 'd cacheData option) now = False
   \<and> isCacheValid (Some \<lparr>cachedAt = NoStamp, tracks = ts\<rparr>) now = False
   \<and> isCacheValid_client NoStamp now = False
   \<and> fetches (topSongs now fetched setThrows ReplyFalsy) = 1
   \<and> fetches (topSongs now fetched setThrows
        (ReplyObject \<lparr>cachedAt = NoStamp, tracks = ts\<rparr>)) = 1
   \<and> fetches (topSongs now fetched setThrows
        (ReplyString (Some (JObject \<lparr>cachedAt = NoStamp, tracks = ts\<rparr>)))) = 1
   \<and> fetches (loadTracks now fetched' setThrows NoItem) = 1
   \<and> fetches (loadTracks now fetched' setThrows
        (Item (Some (JObject \<lparr>data = d, entryCachedAt = NoStamp\<rparr>)))) = 1"
  by (simp add: isCacheValid_client_def spec_isValid_def addUTCDate_def
      setUTCHours23_eq_CutoverInstant topSongs_def fetchFresh_def loadTracks_def fetchFresh_client_def serveStale_def Let_def
      split: sum.split)

text \<open>
  Read on 5 January 2025 at 08:00 UTC, an entry of 4 January, 22:00 UTC is not valid and
  one of 4 January, 23:30 UTC is; a failing source is still called when nothing is stored.
\<close>

theorem C2_valid_witness:
  "\<not> isCacheValid (Some \<lparr>cachedAt = Stamp 1736028000000, tracks = Some ()\<rparr>) 1736064000000
   \<and> isCacheValid (Some \<lparr>cachedAt = Stamp 1736033400000, tracks = Some ()\<rparr>) 1736064000000
   \<and> \<not> isCacheValid_client (Stamp 1736028000000) 1736064000000
   \<and> isCacheValid_client (Stamp 1736033400000) 1736064000000
   \<and> fetches (topSongs 1736064000000 (Inl () :: unit + unit) False ReplyFalsy) = 1
   \<and> fetches (loadTracks 1736064000000 (Inl () :: unit + unit) False NoItem) = 1"
  using C2_valid_iff_after_yesterdays_cutover
      [of 1736028000000 "Some ()" 1736064000000 "Inl ()" False "Inl ()" "Some ()"]
    C2_valid_iff_after_yesterdays_cutover
      [of 1736033400000 "Some ()" 1736064000000 "Inl ()" False "Inl ()" "Some ()"]
  by (simp add: spec_isValid_def CutoverInstant_def msPerDay_def msPerHour_def)

section \<open>Cache store and read path\<close>

subsection \<open>Loading\<close>

lemma loadFromCache_store: "snd (loadFromCache st) = st"
  by (cases st rule: loadFromCache.cases) simp_all

lemma expectedStructure_Some:
  "expectedStructure p = Some cd \<longleftrightarrow>
     p = JObject cd \<and> truthyStamp (cachedAt cd) \<and> tracks cd \<noteq> None"
  by (cases p) auto

lemma loadFromCache_Some:
  "fst (loadFromCache st) = Some cd \<longleftrightarrow>
     (st = ReplyObject cd \<or> st = ReplyString (Some (JObject cd)))
     \<and> truthyStamp (cachedAt cd) \<and> tracks cd \<noteq> None"
  by (cases st rule: loadFromCache.cases) (auto simp: expectedStructure_Some)

lemma loadFromCache_eq: "loadFromCache st = (fst (loadFromCache st), st)"
  by (metis loadFromCache_store prod.collapse)

lemma loadFromCache_tracks:
  "fst (loadFromCache st) = Some cd \<Longrightarrow> \<exists>ts. tracks cd = Some ts"
  by (auto simp: loadFromCache_Some)

lemma loadFromCache_client_Some:
  "fst (loadFromCache_client now st) = Some c \<longleftrightarrow>
     (\<exists>e. st = Item (Some (JObject e)) \<and> isCacheValid_client (entryCachedAt e) now
          \<and> c = \<lparr>data = data e, entryCachedAt = entryCachedAt e\<rparr>)"
  by (cases "(now, st)" rule: loadFromCache_client.cases)
     (auto simp: isCacheValid_client_def)

lemma loadFromCache_client_store:
  "snd (loadFromCache_client now st) =
     (if st = Item (Some JOther)
         \<or> (\<exists>e. st = Item (Some (JObject e)) \<and> \<not> isCacheValid_client (entryCachedAt e) now)
      then NoItem else st)"
  by (cases "(now, st)" rule: loadFromCache_client.cases)
     (auto simp: isCacheValid_client_def)

lemma loadFromCache_client_Some_store:
  "fst (loadFromCache_client now st) = Some c \<Longrightarrow> loadFromCache_client now st = (Some c, st)"
  by (cases "(now, st)" rule: loadFromCache_client.cases)
     (auto simp: isCacheValid_client_def split: if_splits)

lemma valid_stamp_truthy:
  "isCacheValid_client s now \<Longrightarrow> truthyStamp s"
  by (cases s) (simp_all add: isCacheValid_client_def)

text \<open>
  Claim C8, as the code has it. \<^verbatim>\<open>loadFromCache\<close> returns a value in every state of the
  store. On the server it returns an entry exactly when the reply is an object, or a text
  that parses to one, with a truthy \<^verbatim>\<open>cachedAt\<close> and truthy \<^verbatim>\<open>tracks\<close>, and is absent
  otherwise (read error, no key, text that does not parse, other structure); it never
  changes the store. On the client it returns an entry exactly when the text parses to a
  record whose \<^verbatim>\<open>cachedAt\<close> is valid, without looking at \<^verbatim>\<open>data\<close>; it removes the item
  exactly when the text parses to a value other than \<^verbatim>\<open>null\<close> whose \<^verbatim>\<open>cachedAt\<close> is not
  valid, and otherwise leaves the store as it is.
\<close>

theorem C8_load_never_fails_store_kept:
  "snd (loadFromCache st) = st
   \<and> (fst (loadFromCache st) = Some cd \<longleftrightarrow>
        (st = ReplyObject cd \<or> st = ReplyString (Some (JObject cd)))
        \<and> truthyStamp (cachedAt cd) \<and> tracks cd \<noteq> None)
   \<and> (fst (loadFromCache_client now cst) = Some c \<longleftrightarrow>
        (\<exists>entry. cst = Item (Some (JObject entry))
           \<and> isCacheValid_client (entryCachedAt entry) now
           \<and> c = \<lparr>data = data entry, entryCachedAt = entryCachedAt entry\<rparr>))
   \<and> snd (loadFromCache_client now cst) =
        (if cst = Item (Some JOther)
            \<or> (\<exists>entry. cst = Item (Some (JObject entry))
                  \<and> \<not> isCacheValid_client (entryCachedAt entry) now)
         then NoItem else cst)"
  using loadFromCache_store [of st] loadFromCache_Some [of st cd]
    loadFromCache_client_Some [of now cst c] loadFromCache_client_store [of now cst]
  by blast

text \<open>
  A well-formed server entry is returned; a client entry of 2 January 2025, read on
  5 January at 08:00 UTC, is absent and removed.
\<close>

theorem C8_load_witness:
  "loadFromCache (ReplyString (Some (JObject
       \<lparr>cachedAt = Stamp 1736033400000, tracks = Some ''cached''\<rparr>)))
     = (Some \<lparr>cachedAt = Stamp 1736033400000, tracks = Some ''cached''\<rparr>,
        ReplyString (Some (JObject
          \<lparr>cachedAt = Stamp 1736033400000, tracks = Some ''cached''\<rparr>)))
   \<and> loadFromCache_client 1736064000000
        (Item (Some (JObject \<lparr>data = Some ''cached'', entryCachedAt = Stamp 1735819200000\<rparr>)))
     = (None, NoItem)"
  using C8_load_never_fails_store_kept
    [where st = "ReplyString (Some (JObject
                   \<lparr>cachedAt = Stamp 1736033400000, tracks = Some ''cached''\<rparr>))"
       and cd = "\<lparr>cachedAt = Stamp 1736033400000, tracks = Some ''cached''\<rparr>"
       and now = 1736064000000
       and cst = "Item (Some (JObject
                   \<lparr>data = Some ''cached'', entryCachedAt = Stamp 1735819200000\<rparr>))"
       and c = "\<lparr>data = Some ''cached'', entryCachedAt = Stamp 1735819200000\<rparr>"]
  by (simp add: isCacheValid_client_def setUTCHours23_def addUTCDate_def
      msPerDay_def msPerHour_def)

text \<open>
  Payloads that are reported absent and stay in the store: on the server a text that does
  not parse and an object without \<^verbatim>\<open>cachedAt\<close>, on the client a text that does not parse.
  A client entry with a valid \<^verbatim>\<open>cachedAt\<close> and no \<^verbatim>\<open>data\<close> is returned.
\<close>

theorem C8_invalid_payload_stays_stored:
  "loadFromCache (ReplyString None :: string redis) = (None, ReplyString None)
   \<and> loadFromCache (ReplyObject \<lparr>cachedAt = NoStamp, tracks = Some ''cached''\<rparr>)
       = (None, ReplyObject \<lparr>cachedAt = NoStamp, tracks = Some ''cached''\<rparr>)
   \<and> loadFromCache_client 1736064000000 (Item None :: string localStorage) = (None, Item None)
   \<and> fst (loadFromCache_client 1736064000000
        (Item (Some (JObject \<lparr>data = None :: string option,
                              entryCachedAt = Stamp 1736033400000\<rparr>))))
       = Some \<lparr>data = None, entryCachedAt = Stamp 1736033400000\<rparr>"
  by (simp add: isCacheValid_client_def setUTCHours23_def addUTCDate_def
      msPerDay_def msPerHour_def)

subsection \<open>Steps of the read path\<close>

lemma topSongs_served:
  assumes "fst (loadFromCache st) = Some cd"
    and "isCacheValid (Some cd) now" and "\<not> shouldRefreshCache (Some cd) now"
  shows "topSongs now fetched setThrows st
         = \<lparr>result = Json (tracks cd), store = st, fetches = 0, saves = 0\<rparr>"
proof -
  from assms(1) have "loadFromCache st = (Some cd, st)"
    using loadFromCache_eq [of st] by simp
  with assms(2,3) show ?thesis
    by (simp add: topSongs_def fetchFresh_def del: isCacheValid.simps shouldRefreshCache.simps)
qed

lemma serveStale_Some:
  assumes "fst (loadFromCache st) = Some cd"
  shows "serveStale st n = \<lparr>result = Json (tracks cd), store = st, fetches = n, saves = 0\<rparr>"
proof -
  from assms have eq: "loadFromCache st = (Some cd, st)"
    using loadFromCache_eq [of st] by simp
  from assms obtain ts where "tracks cd = Some ts"
    by (auto simp: loadFromCache_Some)
  with eq show ?thesis
    by (simp add: serveStale_def)
qed

lemma serveStale_None:
  assumes "fst (loadFromCache st) = None"
  shows "serveStale st n = \<lparr>result = Status500, store = st, fetches = n, saves = 0\<rparr>"
proof -
  from assms have eq: "loadFromCache st = (None, st)"
    using loadFromCache_eq [of st] by simp
  then show ?thesis
    by (simp add: serveStale_def)
qed

lemma topSongs_fetch_fails_entry:
  assumes "fst (loadFromCache st) = Some cd"
  shows "result (topSongs now (Inl e) setThrows st) = Json (tracks cd)
         \<and> store (topSongs now (Inl e) setThrows st) = st
         \<and> saves (topSongs now (Inl e) setThrows st) = 0"
proof -
  from assms have eq: "loadFromCache st = (Some cd, st)"
    using loadFromCache_eq [of st] by simp
  show ?thesis
    by (simp add: topSongs_def fetchFresh_def eq serveStale_Some [OF assms]
        del: isCacheValid.simps shouldRefreshCache.simps)
qed

lemma topSongs_fetch_fails_no_entry:
  assumes "fst (loadFromCache st) = None"
  shows "topSongs now (Inl e) setThrows st
         = \<lparr>result = Status500, store = st, fetches = 1, saves = 0\<rparr>"
proof -
  from assms have eq: "loadFromCache st = (None, st)"
    using loadFromCache_eq [of st] by simp
  show ?thesis
    by (simp add: topSongs_def fetchFresh_def eq serveStale_None [OF assms])
qed

lemma topSongs_fetch_succeeds:
  "result (topSongs now (Inr ts) setThrows st) \<noteq> Status500"
proof (cases "fst (loadFromCache st)")
  case None
  then have "loadFromCache st = (None, st)"
    using loadFromCache_eq [of st] by simp
  then show ?thesis by (simp add: topSongs_def fetchFresh_def)
next
  case (Some cd)
  then have "loadFromCache st = (Some cd, st)"
    using loadFromCache_eq [of st] by simp
  then show ?thesis by (simp add: topSongs_def fetchFresh_def)
qed

lemma topSongs_500_iff:
  "result (topSongs now fetched setThrows st) = Status500
     \<longleftrightarrow> (\<exists>e. fetched = Inl e) \<and> fst (loadFromCache st) = None"
proof (cases fetched)
  case (Inr ts)
  then show ?thesis using topSongs_fetch_succeeds [of now ts setThrows st] by simp
next
  case (Inl e)
  show ?thesis
  proof (cases "fst (loadFromCache st)")
    case None
    with Inl show ?thesis by (simp add: topSongs_fetch_fails_no_entry)
  next
    case (Some cd)
    then obtain ts where "tracks cd = Some ts" by (auto simp: loadFromCache_Some)
    with Some Inl topSongs_fetch_fails_entry [OF Some, of now e setThrows]
    show ?thesis by simp
  qed
qed

lemma loadTracks_served:
  assumes "fst (loadFromCache_client now st) = Some c"
    and "\<not> isCacheStale (entryCachedAt c) now"
  shows "loadTracks now fetched setThrows st
         = \<lparr>result = applyTracksToState now (data c) (entryCachedAt c),
            store = st, fetches = 0, saves = 0\<rparr>"
  using loadFromCache_client_Some_store [OF assms(1)] assms(2)
  by (simp add: loadTracks_def fetchFresh_client_def)

lemma loadTracks_fetch_fails_entry:
  assumes "fst (loadFromCache_client now st) = Some c"
  shows "result (loadTracks now (Inl e) setThrows st) = applyTracksToState now (data c) (entryCachedAt c)
         \<and> store (loadTracks now (Inl e) setThrows st) = st
         \<and> saves (loadTracks now (Inl e) setThrows st) = 0"
  using loadFromCache_client_Some_store [OF assms(1)]
  by (simp add: loadTracks_def fetchFresh_client_def)

lemma loadTracks_fetch_fails_no_entry:
  assumes "fst (loadFromCache_client now st) = None"
  shows "loadTracks now (Inl e) setThrows st
         = \<lparr>result = ErrorShown (FetchFailed e), store = snd (loadFromCache_client now st),
            fetches = 1, saves = 0\<rparr>"
proof -
  obtain st1 where st1: "snd (loadFromCache_client now st) = st1"
    by simp
  with assms have "loadFromCache_client now st = (None, st1)"
    by (metis prod.collapse)
  with st1 show ?thesis
    by (simp add: loadTracks_def fetchFresh_client_def)
qed

lemma not_stale_iff:
  "\<not> isCacheStale s now \<longleftrightarrow> \<not> staleByCalendar s now \<and> \<not> staleByAge s now"
  by (simp add: isCacheStale_def)

lemma loadTracks_result_cases:
  "result (loadTracks now cfetched setThrows cst) =
     (case fst (loadFromCache_client now cst) of
        None \<Rightarrow> (case cfetched of
                   Inl e \<Rightarrow> ErrorShown (FetchFailed e)
                 | Inr ts \<Rightarrow> Shown ts (Stamp now))
      | Some c \<Rightarrow>
          if \<not> isCacheStale (entryCachedAt c) now
          then applyTracksToState now (data c) (entryCachedAt c)
          else (case cfetched of
                  Inl e \<Rightarrow> applyTracksToState now (data c) (entryCachedAt c)
                | Inr ts \<Rightarrow> Shown ts (Stamp now)))"
proof (cases "fst (loadFromCache_client now cst)")
  case None
  obtain st1 where "snd (loadFromCache_client now cst) = st1"
    by simp
  with None have "loadFromCache_client now cst = (None, st1)"
    by (metis prod.collapse)
  with None show ?thesis
    by (simp add: loadTracks_def fetchFresh_client_def split: sum.split)
next
  case (Some c)
  from loadFromCache_client_Some_store [OF Some] Some show ?thesis
    by (simp add: loadTracks_def fetchFresh_client_def split: sum.split)
qed

lemma applyTracksToState_error:
  "applyTracksToState now dat at = ErrorShown f \<longleftrightarrow> dat = None \<and> f = TypeError"
  by (cases dat) auto

subsection \<open>Serving the cache\<close>

text \<open>
  Claim C3, as the code has it. When the store holds an entry that is valid and not due
  for refresh and, on the client, not older than twelve hours (the second clause of
  \<^verbatim>\<open>isCacheStale\<close>), a read returns exactly the data of that entry, calls the source
  zero times, writes nothing and leaves the store as it was; two successive reads under
  that condition call the source zero times.
\<close>

theorem C3_cache_served_without_fetch:
  "(fst (loadFromCache st) = Some cd
      \<and> isCacheValid (Some cd) now \<and> \<not> shouldRefreshCache (Some cd) now
    \<longrightarrow> (\<exists>ts. tracks cd = Some ts
            \<and> topSongs now fetched setThrows st
                = \<lparr>result = Json (Some ts), store = st, fetches = 0, saves = 0\<rparr>))
   \<and> (fst (loadFromCache st) = Some cd
      \<and> isCacheValid (Some cd) now \<and> \<not> shouldRefreshCache (Some cd) now
      \<and> isCacheValid (Some cd) now' \<and> \<not> shouldRefreshCache (Some cd) now'
    \<longrightarrow> fetches (topSongs now fetched setThrows st)
          + fetches (topSongs now' fetched' setThrows'
                      (store (topSongs now fetched setThrows st))) = 0)
   \<and> (cst = Item (Some (JObject \<lparr>data = Some d, entryCachedAt = at\<rparr>))
      \<and> isCacheValid_client at now
      \<and> \<not> staleByCalendar at now \<and> \<not> staleByAge at now
    \<longrightarrow> loadTracks now cfetched setThrows cst
          = \<lparr>result = Shown d at, store = cst, fetches = 0, saves = 0\<rparr>)
   \<and> (cst = Item (Some (JObject \<lparr>data = Some d, entryCachedAt = at\<rparr>))
      \<and> isCacheValid_client at now
      \<and> \<not> staleByCalendar at now \<and> \<not> staleByAge at now
      \<and> isCacheValid_client at now'
      \<and> \<not> staleByCalendar at now' \<and> \<not> staleByAge at now'
    \<longrightarrow> fetches (loadTracks now cfetched setThrows cst)
          + fetches (loadTracks now' cfetched' setThrows'
                      (store (loadTracks now cfetched setThrows cst))) = 0)"
proof (intro conjI impI)
  assume a: "fst (loadFromCache st) = Some cd
      \<and> isCacheValid (Some cd) now \<and> \<not> shouldRefreshCache (Some cd) now"
  then obtain ts where ts: "tracks cd = Some ts"
    using loadFromCache_tracks by blast
  from a have "topSongs now fetched setThrows st
      = \<lparr>result = Json (tracks cd), store = st, fetches = 0, saves = 0\<rparr>"
    by (intro topSongs_served) blast+
  with ts show "\<exists>ts. tracks cd = Some ts
            \<and> topSongs now fetched setThrows st
                = \<lparr>result = Json (Some ts), store = st, fetches = 0, saves = 0\<rparr>"
    by simp
next
  assume a: "fst (loadFromCache st) = Some cd
      \<and> isCacheValid (Some cd) now \<and> \<not> shouldRefreshCache (Some cd) now
      \<and> isCacheValid (Some cd) now' \<and> \<not> shouldRefreshCache (Some cd) now'"
  then have first: "topSongs now fetched setThrows st
      = \<lparr>result = Json (tracks cd), store = st, fetches = 0, saves = 0\<rparr>"
    by (intro topSongs_served) blast+
  from a have second: "topSongs now' fetched' setThrows' st
      = \<lparr>result = Json (tracks cd), store = st, fetches = 0, saves = 0\<rparr>"
    by (intro topSongs_served) blast+
  show "fetches (topSongs now fetched setThrows st)
          + fetches (topSongs now' fetched' setThrows'
                      (store (topSongs now fetched setThrows st))) = 0"
    by (simp add: first second)
next
  assume a: "cst = Item (Some (JObject \<lparr>data = Some d, entryCachedAt = at\<rparr>))
      \<and> isCacheValid_client at now
      \<and> \<not> staleByCalendar at now \<and> \<not> staleByAge at now"
  then have load: "fst (loadFromCache_client now cst) = Some \<lparr>data = Some d, entryCachedAt = at\<rparr>"
    by (simp add: loadFromCache_client_Some)
  from a have "\<not> isCacheStale at now"
    by (simp add: not_stale_iff)
  moreover from a have "truthyStamp at"
    using valid_stamp_truthy by blast
  ultimately show "loadTracks now cfetched setThrows cst
          = \<lparr>result = Shown d at, store = cst, fetches = 0, saves = 0\<rparr>"
    using loadTracks_served [OF load, of cfetched setThrows] by simp
next
  assume a: "cst = Item (Some (JObject \<lparr>data = Some d, entryCachedAt = at\<rparr>))
      \<and> isCacheValid_client at now
      \<and> \<not> staleByCalendar at now \<and> \<not> staleByAge at now
      \<and> isCacheValid_client at now'
      \<and> \<not> staleByCalendar at now' \<and> \<not> staleByAge at now'"
  then have load: "fst (loadFromCache_client now cst) = Some \<lparr>data = Some d, entryCachedAt = at\<rparr>"
    and load': "fst (loadFromCache_client now' cst) = Some \<lparr>data = Some d, entryCachedAt = at\<rparr>"
    by (simp_all add: loadFromCache_client_Some)
  from a have fresh: "\<not> isCacheStale at now" and fresh': "\<not> isCacheStale at now'"
    by (simp_all add: not_stale_iff)
  from a have truthy: "truthyStamp at"
    using valid_stamp_truthy by blast
  from loadTracks_served [OF load, of cfetched setThrows] fresh
  have first: "loadTracks now cfetched setThrows cst
      = \<lparr>result = applyTracksToState now (Some d) at, store = cst, fetches = 0, saves = 0\<rparr>"
    by simp
  from loadTracks_served [OF load', of cfetched' setThrows'] fresh'
  have second: "loadTracks now' cfetched' setThrows' cst
      = \<lparr>result = applyTracksToState now' (Some d) at, store = cst, fetches = 0, saves = 0\<rparr>"
    by simp
  show "fetches (loadTracks now cfetched setThrows cst)
          + fetches (loadTracks now' cfetched' setThrows'
                      (store (loadTracks now cfetched setThrows cst))) = 0"
    by (simp add: first second)
qed

text \<open>
  An entry of 4 January 2025, 23:30 UTC, read on 5 January at 08:00 UTC, while the source
  would deliver other data.
\<close>

theorem C3_cache_served_witness:
  "topSongs 1736064000000 (Inr ''fresh'' :: unit + string) False
     (ReplyString (Some (JObject \<lparr>cachedAt = Stamp 1736033400000, tracks = Some ''cached''\<rparr>)))
   = \<lparr>result = Json (Some ''cached''),
      store = ReplyString (Some (JObject
                \<lparr>cachedAt = Stamp 1736033400000, tracks = Some ''cached''\<rparr>)),
      fetches = 0, saves = 0\<rparr>
   \<and> loadTracks 1736064000000 (Inr ''fresh'' :: unit + string) False
       (Item (Some (JObject \<lparr>data = Some ''cached'', entryCachedAt = Stamp 1736033400000\<rparr>)))
     = \<lparr>result = Shown ''cached'' (Stamp 1736033400000),
        store = Item (Some (JObject
                  \<lparr>data = Some ''cached'', entryCachedAt = Stamp 1736033400000\<rparr>)),
        fetches = 0, saves = 0\<rparr>"
  using C3_cache_served_without_fetch
    [where st = "ReplyString (Some (JObject
                   \<lparr>cachedAt = Stamp 1736033400000, tracks = Some ''cached''\<rparr>))"
       and cd = "\<lparr>cachedAt = Stamp 1736033400000, tracks = Some ''cached''\<rparr>"
       and now = 1736064000000 and now' = 1736064000000
       and fetched = "Inr ''fresh'' :: unit + string" and setThrows = False
       and fetched' = "Inr ''fresh'' :: unit + string" and setThrows' = False
       and cst = "Item (Some (JObject
                   \<lparr>data = Some ''cached'', entryCachedAt = Stamp 1736033400000\<rparr>))"
       and d = "''cached''" and at = "Stamp 1736033400000"
       and cfetched = "Inr ''fresh'' :: unit + string"
       and cfetched' = "Inr ''fresh'' :: unit + string"]
  by (simp add: isCacheValid_client_def staleByCalendar_def staleByAge_def
      CACHE_STALE_REFRESH_HOURS_def setUTCHours23_def addUTCDate_def
      msPerDay_def msPerHour_def)

text \<open>
  A client entry of 5 January 2025, 07:00 UTC, read the same day at 20:00 UTC: it is valid
  and no boundary has passed, so it is not due, yet it is thirteen hours old and the
  client calls the source, shows the fetched data and overwrites the entry.
\<close>

theorem C3_client_refetches_entry_older_than_twelve_hours:
  "spec_isValid 1736060400000 1736107200000
   \<and> \<not> spec_isDue 1736060400000 1736107200000
   \<and> isCacheValid_client (Stamp 1736060400000) 1736107200000
   \<and> \<not> staleByCalendar (Stamp 1736060400000) 1736107200000
   \<and> loadTracks 1736107200000 (Inr ''fresh'' :: unit + string) False
       (Item (Some (JObject \<lparr>data = Some ''cached'', entryCachedAt = Stamp 1736060400000\<rparr>)))
     = \<lparr>result = Shown ''fresh'' (Stamp 1736107200000),
        store = Item (Some (JObject
                  \<lparr>data = Some ''fresh'', entryCachedAt = Stamp 1736107200000\<rparr>)),
        fetches = 1, saves = 1\<rparr>"
  by (simp add: spec_isValid_def spec_isDue_def CutoverInstant_def loadTracks_def fetchFresh_client_def
      saveToCache_client_def isCacheValid_client_def isCacheStale_def staleByCalendar_def
      staleByAge_def CACHE_STALE_REFRESH_HOURS_def setUTCHours23_def addUTCDate_def
      msPerDay_def msPerHour_def)

subsection \<open>Falling back on a failed fetch\<close>

text \<open>
  Claim C4, as the code has it. When the source fetch fails, the server answers with
  exactly the tracks of the entry that \<^verbatim>\<open>loadFromCache\<close> returns, whether that entry is
  valid, invalid or due, and leaves the store unchanged; the error is not passed on. The
  client does the same for every stored entry that is still valid, due or not. A client
  entry that is no longer valid is removed by \<^verbatim>\<open>loadFromCache\<close> before the fetch, so a
  failed fetch then shows the fetch error.
\<close>

theorem C4_stale_entry_served_when_fetch_fails:
  "(fst (loadFromCache st) = Some cd
    \<longrightarrow> (\<exists>ts. tracks cd = Some ts
            \<and> result (topSongs now (Inl e) setThrows st) = Json (Some ts))
        \<and> store (topSongs now (Inl e) setThrows st) = st)
   \<and> (cst = Item (Some (JObject \<lparr>data = Some d, entryCachedAt = at\<rparr>))
      \<and> isCacheValid_client at now
    \<longrightarrow> result (loadTracks now (Inl e') setThrows cst) = Shown d at
        \<and> store (loadTracks now (Inl e') setThrows cst) = cst)
   \<and> (cst = Item (Some (JObject \<lparr>data = Some d, entryCachedAt = at\<rparr>))
      \<and> \<not> isCacheValid_client at now
    \<longrightarrow> loadTracks now (Inl e') setThrows cst
          = \<lparr>result = ErrorShown (FetchFailed e'), store = NoItem, fetches = 1, saves = 0\<rparr>)"
proof (intro conjI impI)
  assume a: "fst (loadFromCache st) = Some cd"
  then obtain ts where "tracks cd = Some ts"
    using loadFromCache_tracks by blast
  with topSongs_fetch_fails_entry [OF a, of now e setThrows]
  show "\<exists>ts. tracks cd = Some ts
            \<and> result (topSongs now (Inl e) setThrows st) = Json (Some ts)"
    by simp
next
  assume a: "fst (loadFromCache st) = Some cd"
  with topSongs_fetch_fails_entry [OF a, of now e setThrows]
  show "store (topSongs now (Inl e) setThrows st) = st"
    by simp
next
  assume a: "cst = Item (Some (JObject \<lparr>data = Some d, entryCachedAt = at\<rparr>))
      \<and> isCacheValid_client at now"
  then have load: "fst (loadFromCache_client now cst) = Some \<lparr>data = Some d, entryCachedAt = at\<rparr>"
    by (simp add: loadFromCache_client_Some)
  from a have "truthyStamp at"
    using valid_stamp_truthy by blast
  with loadTracks_fetch_fails_entry [OF load, of e' setThrows]
  show "result (loadTracks now (Inl e') setThrows cst) = Shown d at"
    by simp
next
  assume a: "cst = Item (Some (JObject \<lparr>data = Some d, entryCachedAt = at\<rparr>))
      \<and> isCacheValid_client at now"
  then have load: "fst (loadFromCache_client now cst) = Some \<lparr>data = Some d, entryCachedAt = at\<rparr>"
    by (simp add: loadFromCache_client_Some)
  from loadTracks_fetch_fails_entry [OF load, of e' setThrows]
  show "store (loadTracks now (Inl e') setThrows cst) = cst"
    by simp
next
  assume a: "cst = Item (Some (JObject \<lparr>data = Some d, entryCachedAt = at\<rparr>))
      \<and> \<not> isCacheValid_client at now"
  then show "loadTracks now (Inl e') setThrows cst
          = \<lparr>result = ErrorShown (FetchFailed e'), store = NoItem, fetches = 1, saves = 0\<rparr>"
    by (simp add: loadTracks_def fetchFresh_client_def)
qed

text \<open>
  Read on 5 January 2025 at 23:30 UTC while the source is down: the server serves an
  entry of 2 January, no longer valid; the client shows an entry of 4 January,
  23:30 UTC, valid and due.
\<close>

theorem C4_stale_entry_served_witness:
  "\<not> isCacheValid (Some \<lparr>cachedAt = Stamp 1735819200000, tracks = Some ''cached''\<rparr>)
       1736119800000
   \<and> result (topSongs 1736119800000 (Inl () :: unit + string) False
        (ReplyObject \<lparr>cachedAt = Stamp 1735819200000, tracks = Some ''cached''\<rparr>))
      = Json (Some ''cached'')
   \<and> store (topSongs 1736119800000 (Inl () :: unit + string) False
        (ReplyObject \<lparr>cachedAt = Stamp 1735819200000, tracks = Some ''cached''\<rparr>))
      = ReplyObject \<lparr>cachedAt = Stamp 1735819200000, tracks = Some ''cached''\<rparr>
   \<and> isCacheStale (Stamp 1736033400000) 1736119800000
   \<and> result (loadTracks 1736119800000 (Inl () :: unit + string) False
        (Item (Some (JObject \<lparr>data = Some ''cached'', entryCachedAt = Stamp 1736033400000\<rparr>))))
      = Shown ''cached'' (Stamp 1736033400000)"
  using C4_stale_entry_served_when_fetch_fails
    [where st = "ReplyObject \<lparr>cachedAt = Stamp 1735819200000, tracks = Some ''cached''\<rparr>"
       and cd = "\<lparr>cachedAt = Stamp 1735819200000, tracks = Some ''cached''\<rparr>"
       and now = 1736119800000 and e = "()" and setThrows = False
       and cst = "Item (Some (JObject
                    \<lparr>data = Some ''cached'', entryCachedAt = Stamp 1736033400000\<rparr>))"
       and d = "''cached''" and at = "Stamp 1736033400000" and e' = "()"]
  by (simp add: isCacheValid_client_def isCacheStale_def staleByCalendar_def
      setUTCHours23_def addUTCDate_def msPerDay_def msPerHour_def)

text \<open>
  A client entry of 2 January 2025, read on 5 January at 08:00 UTC while the source is
  down: the entry exists and is invalid; the read shows the fetch error, not the data of
  the entry, and the entry is gone from the store.
\<close>

theorem C4_client_drops_invalid_entry_before_fallback:
  "\<not> spec_isValid 1735819200000 1736064000000
   \<and> loadTracks 1736064000000 (Inl () :: unit + string) False
       (Item (Some (JObject \<lparr>data = Some ''cached'', entryCachedAt = Stamp 1735819200000\<rparr>)))
     = \<lparr>result = ErrorShown (FetchFailed ()), store = NoItem, fetches = 1, saves = 0\<rparr>"
  by (simp add: spec_isValid_def CutoverInstant_def loadTracks_def fetchFresh_client_def isCacheValid_client_def
      setUTCHours23_def addUTCDate_def msPerDay_def msPerHour_def)

subsection \<open>Failing\<close>

text \<open>
  Claim C6, as the code has it. The server answers 500 if and only if the source fetch
  fails and \<^verbatim>\<open>loadFromCache\<close> returns no entry. The client shows the fetch error if and
  only if the fetch fails and its \<^verbatim>\<open>loadFromCache\<close> returns no entry, which includes a
  stored entry that is no longer valid. The only other failure of the client is the
  \<^verbatim>\<open>TypeError\<close> of an entry stored without \<^verbatim>\<open>data\<close>, when that entry is to be shown.
\<close>

theorem C6_read_fails_only_without_loadable_entry:
  "(result (topSongs now fetched setThrows st) = Status500
      \<longleftrightarrow> (\<exists>e. fetched = Inl e) \<and> fst (loadFromCache st) = None)
   \<and> (result (loadTracks now cfetched setThrows cst) = ErrorShown (FetchFailed e)
      \<longleftrightarrow> cfetched = Inl e \<and> fst (loadFromCache_client now cst) = None)
   \<and> (result (loadTracks now cfetched setThrows cst) = ErrorShown TypeError
      \<longleftrightarrow> (\<exists>c. fst (loadFromCache_client now cst) = Some c \<and> data c = None
               \<and> (\<not> isCacheStale (entryCachedAt c) now \<or> (\<exists>e. cfetched = Inl e))))"
proof (intro conjI)
  show "result (topSongs now fetched setThrows st) = Status500
      \<longleftrightarrow> (\<exists>e. fetched = Inl e) \<and> fst (loadFromCache st) = None"
    by (rule topSongs_500_iff)
next
  show "result (loadTracks now cfetched setThrows cst) = ErrorShown (FetchFailed e)
      \<longleftrightarrow> cfetched = Inl e \<and> fst (loadFromCache_client now cst) = None"
    by (cases "fst (loadFromCache_client now cst)"; cases cfetched)
       (auto simp: loadTracks_result_cases applyTracksToState_error)
next
  show "result (loadTracks now cfetched setThrows cst) = ErrorShown TypeError
      \<longleftrightarrow> (\<exists>c. fst (loadFromCache_client now cst) = Some c \<and> data c = None
               \<and> (\<not> isCacheStale (entryCachedAt c) now \<or> (\<exists>e. cfetched = Inl e)))"
    by (cases "fst (loadFromCache_client now cst)"; cases cfetched)
       (auto simp: loadTracks_result_cases applyTracksToState_error)
qed

text \<open>With nothing stored and the source down, both tiers fail.\<close>

theorem C6_read_fails_witness:
  "result (topSongs 1736064000000 (Inl () :: unit + string) False ReplyFalsy) = Status500
   \<and> result (loadTracks 1736064000000 (Inl () :: unit + string) False NoItem)
       = ErrorShown (FetchFailed ())"
  using C6_read_fails_only_without_loadable_entry
    [where now = 1736064000000 and fetched = "Inl () :: unit + string" and setThrows = False
       and st = ReplyFalsy and cfetched = "Inl () :: unit + string" and cst = NoItem
       and e = "()"]
  by simp

text \<open>
  A client entry of 4 January 2025, 22:00 UTC, holding data, read on 5 January at
  08:00 UTC while the source is down: the read fails although an entry was stored.
\<close>

theorem C6_client_fails_with_stored_entry:
  "result (loadTracks 1736064000000 (Inl () :: unit + string) False
     (Item (Some (JObject \<lparr>data = Some ''cached'', entryCachedAt = Stamp 1736028000000\<rparr>))))
   = ErrorShown (FetchFailed ())"
  by (simp add: loadTracks_def fetchFresh_client_def isCacheValid_client_def
      setUTCHours23_def addUTCDate_def msPerDay_def msPerHour_def)

section \<open>Numbers\<close>

subsection \<open>Binary digits and rounding\<close>

lemma bitlen_bound: "n < 2 ^ b \<Longrightarrow> bitlen n \<le> b"
proof (induction b arbitrary: n)
  case 0
  then have "n \<le> 0" by simp
  then show ?case by (simp add: bitlen.simps)
next
  case (Suc b)
  show ?case
  proof (cases "n \<le> 0")
    case True
    then show ?thesis by (simp add: bitlen.simps)
  next
    case False
    from Suc.prems have "n div 2 < 2 ^ b"
      by simp
    then have "bitlen (n div 2) \<le> b"
      by (rule Suc.IH)
    with False show ?thesis
      by (subst bitlen.simps) simp
  qed
qed

lemma bitlen_upper: "n < 2 ^ bitlen n"
proof (induction n rule: bitlen.induct)
  case (1 n)
  show ?case
  proof (cases "n \<le> 0")
    case True
    then show ?thesis by (simp add: bitlen.simps)
  next
    case False
    with "1.IH" have "n div 2 < 2 ^ bitlen (n div 2)"
      by simp
    then have "n < 2 * 2 ^ bitlen (n div 2)"
      by linarith
    with False show ?thesis
      by (subst bitlen.simps) simp
  qed
qed

lemma bitlen_lower: "0 < n \<Longrightarrow> 2 ^ (bitlen n - 1) \<le> n"
proof (induction n rule: bitlen.induct)
  case (1 n)
  show ?case
  proof (cases "n div 2 \<le> 0")
    case True
    with "1.prems" have "n = 1"
      by linarith
    then show ?thesis
      by (simp add: bitlen.simps)
  next
    case False
    with "1.IH" "1.prems" have ih: "2 ^ (bitlen (n div 2) - 1) \<le> n div 2"
      by simp
    from False have pos: "0 < bitlen (n div 2)"
      by (subst bitlen.simps) simp
    from "1.prems" have "bitlen n = Suc (bitlen (n div 2))"
      by (subst bitlen.simps) simp
    then have "bitlen n - 1 = Suc (bitlen (n div 2) - 1)"
      using pos by simp
    then have "(2::int) ^ (bitlen n - 1) = 2 * 2 ^ (bitlen (n div 2) - 1)"
      by simp
    also have "\<dots> \<le> 2 * (n div 2)"
      using ih by simp
    also have "\<dots> \<le> n"
      by linarith
    finally show ?thesis .
  qed
qed

lemma div_less_of_less_mult:
  fixes n a b :: int
  assumes "n < a * b" "0 < b"
  shows "n div b < a"
proof (rule ccontr)
  assume "\<not> n div b < a"
  then have "a * b \<le> (n div b) * b"
    using assms(2) by simp
  moreover have "b * (n div b) \<le> n"
    using mult_div_mod_eq [of b n] pos_mod_sign [OF assms(2), of n] by linarith
  ultimately show False
    using assms(1) by (simp add: mult.commute)
qed

lemma le_div_of_mult_le:
  fixes n a b :: int
  assumes "a * b \<le> n" "0 < b"
  shows "a \<le> n div b"
proof -
  from assms have "(a * b) div b \<le> n div b"
    by (rule zdiv_mono1)
  with assms(2) show ?thesis
    by simp
qed

lemma bitlen_gt: "2 ^ b \<le> n \<Longrightarrow> b < bitlen n"
proof -
  assume "2 ^ b \<le> n"
  also have "n < 2 ^ bitlen n"
    by (rule bitlen_upper)
  finally show ?thesis
    by (simp add: power_strict_increasing_iff)
qed

lemma nearestEven_within_half:
  "2 * \<bar>nearestEven n k * 2 ^ k - n\<bar> \<le> 2 ^ k"
proof -
  define p :: int where "p = 2 ^ k"
  define q where "q = n div p"
  define r where "r = n mod p"
  have n: "n = q * p + r"
    by (simp add: q_def r_def)
  have r: "0 \<le> r" "r < p"
    by (simp_all add: r_def p_def)
  have val: "nearestEven n k = (if 2 * r > p \<or> (2 * r = p \<and> odd q) then q + 1 else q)"
    by (simp add: nearestEven_def Let_def p_def q_def r_def)
  have "2 * \<bar>nearestEven n k * p - n\<bar> \<le> p"
  proof (cases "2 * r > p \<or> (2 * r = p \<and> odd q)")
    case True
    then have eq: "nearestEven n k * p - n = p - r"
      using n val by (simp add: algebra_simps)
    from True have "p \<le> 2 * r"
      by auto
    with r have "\<bar>p - r\<bar> = p - r" and "2 * (p - r) \<le> p"
      by simp_all
    then have "2 * \<bar>p - r\<bar> \<le> p"
      by (simp only:)
    then show ?thesis
      by (simp only: eq)
  next
    case False
    then have "nearestEven n k = q"
      by (simp only: val if_False)
    then have eq: "nearestEven n k * p - n = - r"
      by (simp add: n)
    from False have "2 * r \<le> p"
      by auto
    with r have "\<bar>- r\<bar> = r" and "2 * r \<le> p"
      by simp_all
    then have "2 * \<bar>- r\<bar> \<le> p"
      by (simp only:)
    then show ?thesis
      by (simp only: eq)
  qed
  then show ?thesis
    by (simp add: p_def)
qed

lemma nearestEven_tie:
  "2 * (n mod 2 ^ k) = 2 ^ k \<Longrightarrow> even (nearestEven n k)"
  by (simp add: nearestEven_def Let_def)

lemma nearestEven_exact:
  "n mod 2 ^ k = 0 \<Longrightarrow> nearestEven n k * 2 ^ k = n"
  using div_mult_mod_eq [of n "2 ^ k"] by (simp add: nearestEven_def Let_def)

lemma roundToDouble_isDouble:
  assumes "- 1074 \<le> e" "e \<le> 971"
  shows "isDouble (roundToDouble x e)"
proof -
  define n where "n = \<bar>x\<bar>"
  define k where "k = bitlen n - 53"
  define q where "q = n div 2 ^ k"
  define r where "r = n mod 2 ^ k"
  define q' where "q' = (if 2 * r > 2 ^ k \<or> (2 * r = 2 ^ k \<and> odd q) then q + 1 else q)"
  have n0: "0 \<le> n"
    by (simp add: n_def)
  have q0: "0 \<le> q"
    using n0 by (simp add: q_def pos_imp_zdiv_nonneg_iff)
  have q_upper: "q < 2 ^ 53"
  proof -
    have "n < 2 ^ bitlen n"
      by (rule bitlen_upper)
    also have "(2::int) ^ bitlen n \<le> 2 ^ (53 + k)"
      by (rule power_increasing) (simp_all add: k_def)
    finally have "n < 2 ^ 53 * 2 ^ k"
      by (simp add: power_add)
    then show ?thesis
      unfolding q_def by (rule div_less_of_less_mult) simp
  qed
  have q'_bounds: "0 \<le> q'" "q' \<le> 2 ^ 53" "q \<le> q'"
    using q0 q_upper by (simp_all add: q'_def)
  have q_lower: "2 ^ 52 \<le> q" if "0 < k"
  proof -
    from that have big: "bitlen n = 53 + k"
      by (simp add: k_def)
    then have "0 < n"
      using n0 by (cases "n = 0") (simp_all add: bitlen.simps)
    then have "2 ^ (bitlen n - 1) \<le> n"
      by (rule bitlen_lower)
    with big have "2 ^ 52 * 2 ^ k \<le> n"
      by (simp add: power_add)
    then show ?thesis
      unfolding q_def by (rule le_div_of_mult_le) simp
  qed
  have res: "roundToDouble x e =
     (if int (bitlen q') + int k + e > 1024
      then (if x < 0 then NegInfinity else PosInfinity)
      else if q' = 2 ^ 53
      then Finite (if x < 0 then - (2 ^ 52) else 2 ^ 52) (e + int k + 1)
      else Finite (if x < 0 then - q' else q') (e + int k))"
    unfolding roundToDouble_def nearestEven_def Let_def n_def k_def q_def r_def q'_def ..
  show ?thesis
  proof (cases "int (bitlen q') + int k + e > 1024")
    case True
    then show ?thesis
      by (simp add: res)
  next
    case fits: False
    show ?thesis
    proof (cases "q' = 2 ^ 53")
      case True
      then have "53 < bitlen q'"
        using bitlen_gt [of 53 q'] by simp
      with fits have "e + int k + 1 \<le> 971"
        by linarith
      with True fits assms(1) show ?thesis
        by (simp add: res)
    next
      case False
      with q'_bounds have small: "\<bar>q'\<bar> < 2 ^ 53"
        by simp
      have "e + int k \<le> 971"
      proof (cases "0 < k")
        case True
        then have "2 ^ 52 \<le> q'"
          using q_lower q'_bounds(3) by linarith
        then have "52 < bitlen q'"
          by (rule bitlen_gt)
        with fits show ?thesis
          by linarith
      next
        case False
        with assms(2) show ?thesis
          by simp
      qed
      with False fits small assms(1) show ?thesis
        by (simp add: res)
    qed
  qed
qed

lemma js_sub_isDouble:
  assumes "isDouble x" "isDouble y"
  shows "isDouble (js_sub x y)"
proof (cases x; cases y)
  fix a ea b eb
  assume x: "x = Finite a ea" and y: "y = Finite b eb"
  with assms have "- 1074 \<le> min ea eb" and "min ea eb \<le> 971"
    by auto
  then have "isDouble (roundToDouble (scaled a ea (min ea eb) - scaled b eb (min ea eb))
      (min ea eb))"
    by (rule roundToDouble_isDouble)
  then show ?thesis
    unfolding x y by (simp only: js_sub.simps Let_def)
qed simp_all

lemma js_abs_isDouble: "isDouble x \<Longrightarrow> isDouble (js_abs x)"
  by (cases x) simp_all

subsection \<open>Comparison\<close>

lemma scaled_common:
  assumes "e0 \<le> ea" "e0 \<le> eb"
  shows "(scaled a ea (min ea eb) \<le> scaled b eb (min ea eb))
         = (scaled a ea e0 \<le> scaled b eb e0)"
proof -
  let ?mn = "min ea eb"
  let ?d = "nat (?mn - e0)"
  from assms have "nat (ea - e0) = nat (ea - ?mn) + ?d" and "nat (eb - e0) = nat (eb - ?mn) + ?d"
    by simp_all
  then have "scaled a ea e0 = scaled a ea ?mn * 2 ^ ?d"
    and "scaled b eb e0 = scaled b eb ?mn * 2 ^ ?d"
    by (simp_all add: scaled_def power_add)
  moreover have "(0::int) < 2 ^ ?d"
    by simp
  ultimately show ?thesis
    by (simp only: mult_le_cancel_right_pos)
qed

lemma js_le_Finite_common:
  assumes "e0 \<le> ea" "e0 \<le> eb"
  shows "js_le (Finite a ea) (Finite b eb) = (scaled a ea e0 \<le> scaled b eb e0)"
  using scaled_common [OF assms] by (simp add: Let_def)

lemma js_le_total:
  "x \<noteq> NaN \<Longrightarrow> y \<noteq> NaN \<Longrightarrow> js_le x y \<or> js_le y x"
  by (cases x; cases y) (auto simp: Let_def min.commute)

lemma js_le_trans:
  assumes "js_le x y" "js_le y z"
  shows "js_le x z"
proof (cases x; cases y; cases z)
  fix a ea b eb c ec
  assume x: "x = Finite a ea" and y: "y = Finite b eb" and z: "z = Finite c ec"
  define e0 where "e0 = min ea (min eb ec)"
  have le: "e0 \<le> ea" "e0 \<le> eb" "e0 \<le> ec"
    by (simp_all add: e0_def)
  from assms have "scaled a ea e0 \<le> scaled b eb e0" and "scaled b eb e0 \<le> scaled c ec e0"
    unfolding x y z by (simp_all only: js_le_Finite_common [OF le(1) le(2)]
        js_le_Finite_common [OF le(2) le(3)])
  then have "scaled a ea e0 \<le> scaled c ec e0"
    by simp
  then show ?thesis
    unfolding x z by (simp only: js_le_Finite_common [OF le(1) le(3)])
qed (use assms in simp_all)

lemma js_le_not_NaN: "js_le x y \<Longrightarrow> x \<noteq> NaN \<and> y \<noteq> NaN"
  by (cases x; cases y) simp_all

subsection \<open>Integers\<close>

lemma roundToDouble_exact:
  assumes "\<bar>x\<bar> < 2 ^ 53"
  shows "roundToDouble x 0 = Finite x 0"
proof -
  from assms have "bitlen \<bar>x\<bar> \<le> 53"
    by (rule bitlen_bound)
  with assms show ?thesis
    by (auto simp: roundToDouble_def nearestEven_def Let_def)
qed

lemma js_sub_ofInt:
  assumes "\<bar>a - b\<bar> < 2 ^ 53"
  shows "js_sub (ofInt a) (ofInt b) = ofInt (a - b)"
  using roundToDouble_exact [OF assms] by (simp add: ofInt_def scaled_def)

lemma js_le_ofInt: "js_le (ofInt a) (ofInt b) = (a \<le> b)"
  by (simp add: ofInt_def scaled_def)

lemma js_abs_ofInt: "js_abs (ofInt a) = ofInt \<bar>a\<bar>"
  by (simp add: ofInt_def)

text \<open>Some values of the arithmetic: differences that are exact, a tie that goes to the
  even neighbour, a rounding upwards, and the overflow at the largest double.\<close>

lemma double_arithmetic_examples:
  "js_sub (ofInt 640) (ofInt 300) = ofInt 340"
  "js_sub (Finite 601 (- 1)) (ofInt 300) = Finite 1 (- 1)"
  "js_sub (Finite 1 (- 1074)) (Finite 3 (- 1074)) = Finite (- 2) (- 1074)"
  "js_sub (ofInt 9007199254740991) (ofInt (- 1)) = Finite 4503599627370496 1"
  "js_sub (Finite 4503599627370496 1) (ofInt (- 1)) = Finite 4503599627370496 1"
  "js_sub (ofInt 9007199254740994) (ofInt (- 1)) = Finite 4503599627370498 1"
  "js_sub (Finite 9007199254740991 971) (Finite (- 1) 969) = Finite 9007199254740991 971"
  "js_sub (Finite 9007199254740991 971) (Finite (- 1) 970) = PosInfinity"
  "js_le (Finite 3 (- 2)) (ofInt 1)"
  "\<not> js_le (Finite 5 (- 2)) (ofInt 1)"
  by code_simp+

section \<open>Image selection\<close>

lemma closer_cases: "closer t a x = a \<or> closer t a x = x"
  by (simp add: closer_def Let_def)

lemma closer_le_both:
  assumes "js_abs (js_sub (ti_width a) t) \<noteq> NaN" "js_abs (js_sub (ti_width x) t) \<noteq> NaN"
  shows "js_le (js_abs (js_sub (ti_width (closer t a x)) t)) (js_abs (js_sub (ti_width a) t))
       \<and> js_le (js_abs (js_sub (ti_width (closer t a x)) t)) (js_abs (js_sub (ti_width x) t))"
proof (cases "js_le (js_abs (js_sub (ti_width x) t)) (js_abs (js_sub (ti_width a) t))")
  case True
  then have "closer t a x = x"
    by (simp add: closer_def Let_def)
  with True js_le_total [OF assms(2) assms(2)] show ?thesis
    by simp
next
  case False
  then have "closer t a x = a"
    by (simp add: closer_def Let_def)
  with False js_le_total [OF assms(1) assms(1)] js_le_total [OF assms(1) assms(2)]
  show ?thesis
    by auto
qed

lemma foldl_closer_member: "foldl (closer t) a xs \<in> insert a (set xs)"
proof (induction xs arbitrary: a)
  case Nil
  show ?case by simp
next
  case (Cons x xs)
  from Cons.IH [of "closer t a x"] closer_cases [of t a x]
  show ?case by auto
qed

lemma foldl_closer_least:
  assumes "js_abs (js_sub (ti_width a) t) \<noteq> NaN"
    and "\<forall>x \<in> set xs. js_abs (js_sub (ti_width x) t) \<noteq> NaN"
    and "y \<in> insert a (set xs)"
  shows "js_le (js_abs (js_sub (ti_width (foldl (closer t) a xs)) t))
           (js_abs (js_sub (ti_width y) t))"
  using assms
proof (induction xs arbitrary: a y)
  case Nil
  then show ?case
    using js_le_total [of "js_abs (js_sub (ti_width a) t)" "js_abs (js_sub (ti_width a) t)"]
    by auto
next
  case (Cons x xs)
  let ?c = "closer t a x"
  from Cons.prems have ok: "js_abs (js_sub (ti_width a) t) \<noteq> NaN"
    "js_abs (js_sub (ti_width x) t) \<noteq> NaN"
    by simp_all
  then have both: "js_le (js_abs (js_sub (ti_width ?c) t)) (js_abs (js_sub (ti_width a) t))"
    "js_le (js_abs (js_sub (ti_width ?c) t)) (js_abs (js_sub (ti_width x) t))"
    using closer_le_both by blast+
  from ok closer_cases [of t a x] have c_ok: "js_abs (js_sub (ti_width ?c) t) \<noteq> NaN"
    by auto
  from Cons.prems have rest_ok: "\<forall>z \<in> set xs. js_abs (js_sub (ti_width z) t) \<noteq> NaN"
    by simp
  have start: "js_le (js_abs (js_sub (ti_width (foldl (closer t) ?c xs)) t))
      (js_abs (js_sub (ti_width ?c) t))"
    using Cons.IH [OF c_ok rest_ok, of ?c] by simp
  from Cons.prems(3) consider "y = a" | "y = x" | "y \<in> set xs"
    by auto
  then show ?case
  proof cases
    case 1
    with start both(1) show ?thesis
      using js_le_trans by auto
  next
    case 2
    with start both(2) show ?thesis
      using js_le_trans by auto
  next
    case 3
    then show ?thesis
      using Cons.IH [OF c_ok rest_ok, of y] by simp
  qed
qed

lemma getImageByWidth_Cons:
  "getImageByWidth (first # rest) t = (Some (foldl (closer t) first (first # rest)), first # rest)"
  by (simp add: getImageByWidth_def js_reduce_def)

lemma getImageByWidth_member:
  assumes "imgs \<noteq> []"
  shows "\<exists>img \<in> set imgs. fst (getImageByWidth imgs t) = Some img"
proof -
  from assms obtain first rest where imgs: "imgs = first # rest"
    by (cases imgs) auto
  have "foldl (closer t) first imgs \<in> set imgs"
    using foldl_closer_member [of t first imgs] imgs by auto
  then show ?thesis
    unfolding imgs by (simp only: getImageByWidth_Cons fst_conv) blast
qed

lemma getImageByWidth_least:
  assumes "imgs \<noteq> []" and "\<forall>img \<in> set imgs. js_abs (js_sub (ti_width img) t) \<noteq> NaN"
  shows "\<exists>img \<in> set imgs. fst (getImageByWidth imgs t) = Some img
     \<and> (\<forall>other \<in> set imgs. js_le (js_abs (js_sub (ti_width img) t))
                                (js_abs (js_sub (ti_width other) t)))"
proof -
  from assms(1) obtain first rest where imgs: "imgs = first # rest"
    by (cases imgs) auto
  let ?r = "foldl (closer t) first imgs"
  have mem: "?r \<in> set imgs"
    using foldl_closer_member [of t first imgs] imgs by auto
  have first_ok: "js_abs (js_sub (ti_width first) t) \<noteq> NaN"
    using assms(2) imgs by simp
  have "\<forall>other \<in> set imgs. js_le (js_abs (js_sub (ti_width ?r) t))
      (js_abs (js_sub (ti_width other) t))"
    using foldl_closer_least [OF first_ok assms(2)] by blast
  moreover have "fst (getImageByWidth imgs t) = Some ?r"
    unfolding imgs by (simp only: getImageByWidth_Cons fst_conv)
  ultimately show ?thesis
    using mem by blast
qed

lemma getImageByWidth_integers:
  assumes "imgs \<noteq> []" and widths: "map ti_width imgs = map ofInt ws"
    and small: "\<forall>w \<in> set ws. \<bar>w\<bar> < 2 ^ 52" and t: "\<bar>t\<bar> < 2 ^ 52"
  shows "\<exists>i < length imgs. fst (getImageByWidth imgs (ofInt t)) = Some (imgs ! i)
     \<and> (\<forall>j < length imgs. \<bar>ws ! i - t\<bar> \<le> \<bar>ws ! j - t\<bar>)"
proof -
  from widths have len: "length ws = length imgs"
    using length_map by metis
  have diff: "js_abs (js_sub (ti_width (imgs ! j)) (ofInt t)) = ofInt \<bar>ws ! j - t\<bar>"
    if j: "j < length imgs" for j
  proof -
    from j widths have "ti_width (imgs ! j) = ofInt (ws ! j)"
      using len nth_map [of j imgs ti_width] nth_map [of j ws ofInt] by simp
    moreover from j len small have "\<bar>ws ! j\<bar> < 2 ^ 52"
      by simp
    with t have "\<bar>ws ! j - t\<bar> < 2 ^ 53"
      by simp
    ultimately show ?thesis
      by (simp add: js_sub_ofInt js_abs_ofInt)
  qed
  have "\<forall>img \<in> set imgs. js_abs (js_sub (ti_width img) (ofInt t)) \<noteq> NaN"
    using diff by (auto simp: in_set_conv_nth ofInt_def)
  from getImageByWidth_least [OF assms(1) this]
  obtain img where img: "img \<in> set imgs" "fst (getImageByWidth imgs (ofInt t)) = Some img"
    and least: "\<forall>other \<in> set imgs. js_le (js_abs (js_sub (ti_width img) (ofInt t)))
                                (js_abs (js_sub (ti_width other) (ofInt t)))"
    by blast
  from img(1) obtain i where i: "i < length imgs" "img = imgs ! i"
    by (auto simp: in_set_conv_nth)
  have "\<bar>ws ! i - t\<bar> \<le> \<bar>ws ! j - t\<bar>" if j: "j < length imgs" for j
  proof -
    from j have "imgs ! j \<in> set imgs"
      by simp
    with least have "js_le (js_abs (js_sub (ti_width img) (ofInt t)))
        (js_abs (js_sub (ti_width (imgs ! j)) (ofInt t)))"
      by blast
    then show ?thesis
      unfolding i(2) by (simp only: diff [OF i(1)] diff [OF j] js_le_ofInt)
  qed
  with i img(2) show ?thesis
    by blast
qed

text \<open>
  Claim C9, as the code has it. \<^verbatim>\<open>getImageByWidth\<close> returns \<^verbatim>\<open>null\<close> if and only if the list
  is empty, and leaves the list as it was. For a list that is not empty it returns one of
  its elements. When no difference \<^verbatim>\<open>Math.abs(width - targetWidth)\<close>, computed in double
  precision, is \<^verbatim>\<open>NaN\<close>, the computed difference of the element returned is \<^verbatim>\<open><=\<close> that of
  every element of the list. When the widths and the target are integers of magnitude
  below \<open>2\<^sup>5\<^sup>2\<close>, the computed differences are exact, and no element of the list has a
  width nearer to the target than the one returned.
\<close>

theorem C9_closest_by_computed_difference:
  "(fst (getImageByWidth imgs targetWidth) = None \<longleftrightarrow> imgs = [])
   \<and> snd (getImageByWidth imgs targetWidth) = imgs
   \<and> (imgs \<noteq> [] \<longrightarrow> (\<exists>img \<in> set imgs. fst (getImageByWidth imgs targetWidth) = Some img))
   \<and> (imgs \<noteq> [] \<and> (\<forall>img \<in> set imgs. js_abs (js_sub (ti_width img) targetWidth) \<noteq> NaN)
      \<longrightarrow> (\<exists>img \<in> set imgs. fst (getImageByWidth imgs targetWidth) = Some img
             \<and> (\<forall>other \<in> set imgs.
                   js_le (js_abs (js_sub (ti_width img) targetWidth))
                         (js_abs (js_sub (ti_width other) targetWidth)))))
   \<and> (imgs \<noteq> [] \<and> map ti_width imgs = map ofInt ws
        \<and> (\<forall>w \<in> set ws. \<bar>w\<bar> < 2 ^ 52) \<and> \<bar>t\<bar> < 2 ^ 52
      \<longrightarrow> (\<exists>i < length imgs. fst (getImageByWidth imgs (ofInt t)) = Some (imgs ! i)
             \<and> (\<forall>j < length imgs. \<bar>ws ! i - t\<bar> \<le> \<bar>ws ! j - t\<bar>)))"
proof (intro conjI impI)
  show "fst (getImageByWidth imgs targetWidth) = None \<longleftrightarrow> imgs = []"
    by (cases imgs) (simp_all add: getImageByWidth_def js_reduce_def)
next
  show "snd (getImageByWidth imgs targetWidth) = imgs"
    by (cases imgs) (simp_all add: getImageByWidth_def js_reduce_def)
next
  assume "imgs \<noteq> []"
  then show "\<exists>img \<in> set imgs. fst (getImageByWidth imgs targetWidth) = Some img"
    by (rule getImageByWidth_member)
next
  assume "imgs \<noteq> [] \<and> (\<forall>img \<in> set imgs. js_abs (js_sub (ti_width img) targetWidth) \<noteq> NaN)"
  then show "\<exists>img \<in> set imgs. fst (getImageByWidth imgs targetWidth) = Some img
             \<and> (\<forall>other \<in> set imgs.
                   js_le (js_abs (js_sub (ti_width img) targetWidth))
                         (js_abs (js_sub (ti_width other) targetWidth)))"
    using getImageByWidth_least by blast
next
  assume "imgs \<noteq> [] \<and> map ti_width imgs = map ofInt ws
        \<and> (\<forall>w \<in> set ws. \<bar>w\<bar> < 2 ^ 52) \<and> \<bar>t\<bar> < 2 ^ 52"
  then show "\<exists>i < length imgs. fst (getImageByWidth imgs (ofInt t)) = Some (imgs ! i)
             \<and> (\<forall>j < length imgs. \<bar>ws ! i - t\<bar> \<le> \<bar>ws ! j - t\<bar>)"
    using getImageByWidth_integers by blast
qed

text \<open>Three sizes of one cover and the target width 300, as the hero cards ask for.\<close>

theorem C9_closest_width_witness:
  "[\<lparr>ti_url = ''large'', ti_width = ofInt 640, ti_height = ofInt 640\<rparr>,
    \<lparr>ti_url = ''medium'', ti_width = ofInt 300, ti_height = ofInt 300\<rparr>,
    \<lparr>ti_url = ''small'', ti_width = ofInt 64, ti_height = ofInt 64\<rparr>] \<noteq> []
   \<and> list_all (\<lambda>w. \<bar>w\<bar> < 2 ^ 52) [640, 300, 64 :: int]
   \<and> getImageByWidth
        [\<lparr>ti_url = ''large'', ti_width = ofInt 640, ti_height = ofInt 640\<rparr>,
         \<lparr>ti_url = ''medium'', ti_width = ofInt 300, ti_height = ofInt 300\<rparr>,
         \<lparr>ti_url = ''small'', ti_width = ofInt 64, ti_height = ofInt 64\<rparr>] (ofInt 300)
       = (Some \<lparr>ti_url = ''medium'', ti_width = ofInt 300, ti_height = ofInt 300\<rparr>,
          [\<lparr>ti_url = ''large'', ti_width = ofInt 640, ti_height = ofInt 640\<rparr>,
           \<lparr>ti_url = ''medium'', ti_width = ofInt 300, ti_height = ofInt 300\<rparr>,
           \<lparr>ti_url = ''small'', ti_width = ofInt 64, ti_height = ofInt 64\<rparr>])"
proof -
  let ?imgs = "[\<lparr>ti_url = ''large'', ti_width = ofInt 640, ti_height = ofInt 640\<rparr>,
    \<lparr>ti_url = ''medium'', ti_width = ofInt 300, ti_height = ofInt 300\<rparr>,
    \<lparr>ti_url = ''small'', ti_width = ofInt 64, ti_height = ofInt 64\<rparr>]"
  have widths: "map ti_width ?imgs = map ofInt [640, 300, 64]"
    by simp
  have small: "\<forall>w \<in> set [640, 300, 64 :: int]. \<bar>w\<bar> < 2 ^ 52"
    by simp
  have run: "getImageByWidth ?imgs (ofInt 300)
      = (Some \<lparr>ti_url = ''medium'', ti_width = ofInt 300, ti_height = ofInt 300\<rparr>, ?imgs)"
    by code_simp
  from C9_closest_by_computed_difference
    [of ?imgs "ofInt 300" "[640, 300, 64]" 300] widths small run
  show ?thesis
    by (simp add: list_all_iff)
qed

text \<open>
  Two inputs on which the element returned is not the one nearest to the target. With the
  widths \<open>2\<^sup>5\<^sup>3 - 1\<close> and \<open>2\<^sup>5\<^sup>3\<close> and the target \<open>-1\<close>, all of them doubles, the exact
  differences are \<open>2\<^sup>5\<^sup>3\<close> and \<open>2\<^sup>5\<^sup>3 + 1\<close>; the second rounds to \<open>2\<^sup>5\<^sup>3\<close>, the comparison
  \<^verbatim>\<open><=\<close> holds, and the second image is returned. With a first image whose width is
  \<^verbatim>\<open>NaN\<close> (or absent) every comparison fails and the first image is returned, although
  the second has the width asked for.
\<close>

theorem C9_rounded_difference_picks_farther_image:
  "isDouble (ofInt 9007199254740991) \<and> isDouble (Finite 4503599627370496 1)
   \<and> isDouble (ofInt (- 1))
   \<and> spec_absDiff 0 (ofInt 9007199254740991) (ofInt (- 1)) = Some 9007199254740992
   \<and> spec_absDiff 0 (Finite 4503599627370496 1) (ofInt (- 1)) = Some 9007199254740993
   \<and> fst (getImageByWidth
        [\<lparr>ti_url = ''near'', ti_width = ofInt 9007199254740991, ti_height = ofInt 1\<rparr>,
         \<lparr>ti_url = ''far'', ti_width = Finite 4503599627370496 1, ti_height = ofInt 1\<rparr>]
        (ofInt (- 1)))
       = Some \<lparr>ti_url = ''far'', ti_width = Finite 4503599627370496 1, ti_height = ofInt 1\<rparr>
   \<and> fst (getImageByWidth
        [\<lparr>ti_url = ''unsized'', ti_width = NaN, ti_height = NaN\<rparr>,
         \<lparr>ti_url = ''exact'', ti_width = ofInt 300, ti_height = ofInt 300\<rparr>]
        (ofInt 300))
       = Some \<lparr>ti_url = ''unsized'', ti_width = NaN, ti_height = NaN\<rparr>"
  by code_simp

section \<open>Authentication\<close>

lemma js_split_char:
  "js_split [c] s =
     takeWhile (\<lambda>x. x \<noteq> c) s #
       (case dropWhile (\<lambda>x. x \<noteq> c) s of [] \<Rightarrow> [] | d # r \<Rightarrow> js_split [c] r)"
proof (induction s)
  case Nil
  show ?case by simp
next
  case (Cons x xs)
  show ?case
  proof (cases "x = c")
    case True
    then show ?thesis by simp
  next
    case False
    with Cons.IH show ?thesis by simp
  qed
qed

lemma second_field:
  "element (js_split [c] s) 1 =
     (case dropWhile (\<lambda>x. x \<noteq> c) s of [] \<Rightarrow> None | d # r \<Rightarrow> Some (takeWhile (\<lambda>x. x \<noteq> c) r))"
proof (cases "dropWhile (\<lambda>x. x \<noteq> c) s")
  case Nil
  have "js_split [c] s = [takeWhile (\<lambda>x. x \<noteq> c) s]"
    by (subst js_split_char) (simp only: Nil list.case)
  then have "element (js_split [c] s) 1 = None"
    by simp
  then show ?thesis
    by (simp only: Nil list.case)
next
  case (Cons d r)
  have "js_split [c] s = takeWhile (\<lambda>x. x \<noteq> c) s # js_split [c] r"
    by (subst js_split_char) (simp only: Cons list.case)
  also have "js_split [c] r = takeWhile (\<lambda>x. x \<noteq> c) r #
       (case dropWhile (\<lambda>x. x \<noteq> c) r of [] \<Rightarrow> [] | d # r' \<Rightarrow> js_split [c] r')"
    by (rule js_split_char)
  finally have "element (js_split [c] s) 1 = Some (takeWhile (\<lambda>x. x \<noteq> c) r)"
    by simp
  then show ?thesis
    by (simp only: Cons list.case)
qed

lemma second_field_none:
  assumes "c \<notin> set s"
  shows "element (js_split [c] s) 1 = None"
proof -
  from assms have "dropWhile (\<lambda>x. x \<noteq> c) s = []"
    by auto
  then show ?thesis
    by (simp only: second_field list.case)
qed

lemma dropWhile_decomp:
  assumes "c \<notin> set scheme"
  shows "dropWhile (\<lambda>x. x \<noteq> c) (scheme @ c # ys) = c # ys"
  using assms by (induction scheme) auto

lemma takeWhile_decomp:
  assumes "c \<notin> set tok" "rest = [] \<or> hd rest = c"
  shows "takeWhile (\<lambda>x. x \<noteq> c) (tok @ rest) = tok"
proof -
  from assms(2) have "takeWhile (\<lambda>x. x \<noteq> c) rest = []"
    by (cases rest) auto
  with assms(1) show ?thesis
    by (induction tok) auto
qed

lemma second_field_some:
  assumes "c \<notin> set scheme" "c \<notin> set tok" "rest = [] \<or> hd rest = c"
  shows "element (js_split [c] (scheme @ c # tok @ rest)) 1 = Some tok"
proof -
  have "dropWhile (\<lambda>x. x \<noteq> c) (scheme @ c # tok @ rest) = c # tok @ rest"
    using assms(1) by (rule dropWhile_decomp)
  then have "element (js_split [c] (scheme @ c # tok @ rest)) 1
             = Some (takeWhile (\<lambda>x. x \<noteq> c) (tok @ rest))"
    by (simp only: second_field list.case)
  also have "takeWhile (\<lambda>x. x \<noteq> c) (tok @ rest) = tok"
    using assms(2,3) by (rule takeWhile_decomp)
  finally show ?thesis .
qed

lemma second_field_decomp:
  assumes "element (js_split [c] h) 1 = Some tok"
  shows "\<exists>scheme rest. h = scheme @ c # tok @ rest \<and> c \<notin> set scheme \<and> c \<notin> set tok
           \<and> (rest = [] \<or> hd rest = c)"
proof -
  let ?P = "\<lambda>x. x \<noteq> c"
  from assms have "(case dropWhile ?P h of [] \<Rightarrow> None | d # r \<Rightarrow> Some (takeWhile ?P r))
      = Some tok"
    by (simp only: second_field)
  then obtain d r where dr: "dropWhile ?P h = d # r" and tok: "tok = takeWhile ?P r"
    by (auto split: list.splits)
  from dr have "d = c"
    using hd_dropWhile [of ?P h] by auto
  have h: "h = takeWhile ?P h @ dropWhile ?P h"
    by simp
  have r: "r = takeWhile ?P r @ dropWhile ?P r"
    by simp
  have rest: "dropWhile ?P r = [] \<or> hd (dropWhile ?P r) = c"
    using hd_dropWhile [of ?P r] by auto
  have "c \<notin> set (takeWhile ?P h)" and "c \<notin> set (takeWhile ?P r)"
    by (auto dest: set_takeWhileD)
  moreover have "h = takeWhile ?P h @ c # takeWhile ?P r @ dropWhile ?P r"
    using h dr \<open>d = c\<close> r by metis
  ultimately show ?thesis
    using tok rest by blast
qed

lemma accepted_iff:
  "authenticateToken API_TOKEN (Some h) = Next \<longleftrightarrow>
     API_TOKEN \<noteq> [] \<and>
     (\<exists>scheme rest. h = scheme @ CHR '' '' # API_TOKEN @ rest
        \<and> CHR '' '' \<notin> set scheme \<and> CHR '' '' \<notin> set API_TOKEN
        \<and> (rest = [] \<or> hd rest = CHR '' ''))"
proof
  assume "authenticateToken API_TOKEN (Some h) = Next"
  then have "element (js_split '' '' h) 1 = Some API_TOKEN \<and> API_TOKEN \<noteq> []"
    by (auto simp: authenticateToken_def split: if_splits option.splits)
  then show "API_TOKEN \<noteq> [] \<and>
     (\<exists>scheme rest. h = scheme @ CHR '' '' # API_TOKEN @ rest
        \<and> CHR '' '' \<notin> set scheme \<and> CHR '' '' \<notin> set API_TOKEN
        \<and> (rest = [] \<or> hd rest = CHR '' ''))"
    using second_field_decomp [of "CHR '' ''" h API_TOKEN] by blast
next
  assume "API_TOKEN \<noteq> [] \<and>
     (\<exists>scheme rest. h = scheme @ CHR '' '' # API_TOKEN @ rest
        \<and> CHR '' '' \<notin> set scheme \<and> CHR '' '' \<notin> set API_TOKEN
        \<and> (rest = [] \<or> hd rest = CHR '' ''))"
  then obtain scheme rest where ne: "API_TOKEN \<noteq> []"
    and h: "h = scheme @ CHR '' '' # API_TOKEN @ rest"
    and c: "CHR '' '' \<notin> set scheme" "CHR '' '' \<notin> set API_TOKEN"
      "rest = [] \<or> hd rest = CHR '' ''"
    by blast
  from c have "element (js_split '' '' h) 1 = Some API_TOKEN"
    unfolding h by (rule second_field_some)
  with ne h show "authenticateToken API_TOKEN (Some h) = Next"
    by (simp add: authenticateToken_def)
qed

text \<open>
  Claim C10, as the code has it. The middleware looks at the second field of the header
  when it is cut at every single space character. It accepts exactly the headers made of
  a first field, one space, the configured secret and then either nothing or a space and
  anything. A request without the header, or with an empty one, is rejected with 401; so
  is a header without a space, and a header whose second field is empty (as when two
  spaces follow the first word). A second field that is not empty and differs from the
  secret is rejected with 403. The first field is never looked at, nor is anything after
  the second.
\<close>

theorem C10_second_space_field:
  "authenticateToken API_TOKEN None = Rejected 401 ''No authorization header provided''
   \<and> (authenticateToken API_TOKEN (Some h) = Next \<longleftrightarrow>
        API_TOKEN \<noteq> [] \<and>
        (\<exists>scheme rest. h = scheme @ CHR '' '' # API_TOKEN @ rest
           \<and> CHR '' '' \<notin> set scheme \<and> CHR '' '' \<notin> set API_TOKEN
           \<and> (rest = [] \<or> hd rest = CHR '' '')))
   \<and> (CHR '' '' \<notin> set h \<longrightarrow>
        authenticateToken API_TOKEN (Some h)
          = Rejected 401 (if h = [] then ''No authorization header provided''
                          else ''Invalid authorization header format''))
   \<and> (CHR '' '' \<notin> set scheme \<and> CHR '' '' \<notin> set tok \<and> (rest = [] \<or> hd rest = CHR '' '') \<longrightarrow>
        authenticateToken API_TOKEN (Some (scheme @ CHR '' '' # tok @ rest))
          = (if tok = [] then Rejected 401 ''Invalid authorization header format''
             else if tok = API_TOKEN then Next
             else Rejected 403 ''Invalid or expired token''))"
proof (intro conjI impI)
  show "authenticateToken API_TOKEN None = Rejected 401 ''No authorization header provided''"
    by (simp add: authenticateToken_def)
next
  show "authenticateToken API_TOKEN (Some h) = Next \<longleftrightarrow>
        API_TOKEN \<noteq> [] \<and>
        (\<exists>scheme rest. h = scheme @ CHR '' '' # API_TOKEN @ rest
           \<and> CHR '' '' \<notin> set scheme \<and> CHR '' '' \<notin> set API_TOKEN
           \<and> (rest = [] \<or> hd rest = CHR '' ''))"
    by (rule accepted_iff)
next
  assume "CHR '' '' \<notin> set h"
  then have "element (js_split '' '' h) 1 = None"
    by (rule second_field_none)
  then show "authenticateToken API_TOKEN (Some h)
          = Rejected 401 (if h = [] then ''No authorization header provided''
                          else ''Invalid authorization header format'')"
    by (simp add: authenticateToken_def)
next
  assume a: "CHR '' '' \<notin> set scheme \<and> CHR '' '' \<notin> set tok \<and> (rest = [] \<or> hd rest = CHR '' '')"
  then have "element (js_split '' '' (scheme @ CHR '' '' # tok @ rest)) 1 = Some tok"
    using second_field_some [of "CHR '' ''" scheme tok rest] by simp
  then show "authenticateToken API_TOKEN (Some (scheme @ CHR '' '' # tok @ rest))
          = (if tok = [] then Rejected 401 ''Invalid authorization header format''
             else if tok = API_TOKEN then Next
             else Rejected 403 ''Invalid or expired token'')"
    by (simp add: authenticateToken_def)
qed

theorem C10_second_space_field_witness:
  "authenticateToken ''s3cret'' (Some ''Bearer s3cret'') = Next
   \<and> authenticateToken ''s3cret'' (Some ''Basic s3cret'') = Next
   \<and> authenticateToken ''s3cret'' (Some ''Bearer wrong'')
       = Rejected 403 ''Invalid or expired token''
   \<and> authenticateToken ''s3cret'' (Some ''Bearer'')
       = Rejected 401 ''Invalid authorization header format''"
  using C10_second_space_field [of "''s3cret''" "''Bearer''" "''Bearer''" "''s3cret''" "[]"]
    C10_second_space_field [of "''s3cret''" "''Bearer''" "''Basic''" "''s3cret''" "[]"]
    C10_second_space_field [of "''s3cret''" "''Bearer''" "''Bearer''" "''wrong''" "[]"]
  by simp

text \<open>
  Two spaces, or a tab, between the scheme and the secret: the second
  whitespace-separated token of the header is the secret, and the request is rejected
  with 401. With a leading space the second whitespace-separated token is not the secret,
  and the request is accepted.
\<close>

theorem C10_whitespace_runs_are_not_skipped:
  "spec_secondToken ''Bearer  s3cret'' = Some ''s3cret''
   \<and> authenticateToken ''s3cret'' (Some ''Bearer  s3cret'')
       = Rejected 401 ''Invalid authorization header format''
   \<and> spec_secondToken [CHR ''B'', CHR 0x09, CHR ''s''] = Some ''s''
   \<and> authenticateToken ''s'' (Some [CHR ''B'', CHR 0x09, CHR ''s''])
       = Rejected 401 ''Invalid authorization header format''
   \<and> spec_secondToken '' s3cret x'' = Some ''x''
   \<and> authenticateToken ''s3cret'' (Some '' s3cret x'') = Next"
  by (simp add: spec_secondToken_def isWhitespace_def authenticateToken_def)

section \<open>The source fetch\<close>

subsection \<open>The track identifier read back from the link\<close>

lemma js_split_no_slash:
  "CHR ''/'' \<notin> set s \<Longrightarrow> js_split (CHR ''/'' # sep) s = [s]"
  by (induction s) auto

lemma js_split_track_url:
  "js_split ''/track/'' (''https://open.spotify.com/track/'' @ k)
   = ''https://open.spotify.com'' # js_split ''/track/'' k"
  by simp

lemma trackId_of_url:
  assumes "CHR ''/'' \<notin> set k"
  shows "element (js_split ''/track/'' (''https://open.spotify.com/track/'' @ k)) 1 = Some k"
proof -
  have "js_split ''/track/'' k = [k]"
    using assms by (rule js_split_no_slash)
  then show ?thesis
    by (simp only: js_split_track_url) simp
qed

lemma enrich_scrapeRow:
  assumes "CHR ''/'' \<notin> set (trackIdMatch r)"
  shows "enrich spotifyData (scrapeRow r) =
     (if trackIdMatch r = [] then withScraped (scrapeRow r)
      else case spotifyData (trackIdMatch r) of
             None \<Rightarrow> withScraped (scrapeRow r)
           | Some sp \<Rightarrow> withSpotify (scrapeRow r) sp)"
proof (cases "trackIdMatch r = []")
  case True
  then have "url (scrapeRow r) = []"
    by (simp add: scrapeRow_def)
  then have "element (js_split ''/track/'' (url (scrapeRow r))) 1 = None"
    by simp
  with True show ?thesis
    by (simp add: enrich_def)
next
  case False
  then have "url (scrapeRow r) = ''https://open.spotify.com/track/'' @ trackIdMatch r"
    by (simp add: scrapeRow_def)
  then have "element (js_split ''/track/'' (url (scrapeRow r))) 1 = Some (trackIdMatch r)"
    using trackId_of_url [OF assms] by simp
  with False show ?thesis
    by (simp add: enrich_def split: option.split)
qed

lemma foldl_remember_kept:
  "foldl remember m ts = foldl (\<lambda>m t. m(sp_id t \<mapsto> t)) m (kept ts)"
proof (induction ts arbitrary: m)
  case Nil
  show ?case by simp
next
  case (Cons x xs)
  then show ?case by (cases x) simp_all
qed

lemma foldl_store_lookup:
  "foldl (\<lambda>m t. m(sp_id t \<mapsto> t)) m ts k =
     (case find (\<lambda>t. sp_id t = k) (rev ts) of None \<Rightarrow> m k | Some t \<Rightarrow> Some t)"
proof (induction ts rule: rev_induct)
  case Nil
  show ?case by simp
next
  case (snoc x xs)
  then show ?case by simp
qed

lemma kept_has_id: "t \<in> set (kept ts) \<Longrightarrow> sp_id t \<noteq> []"
  by (induction ts rule: kept.induct) (auto split: if_splits)

lemma delivered_has_id: "t \<in> set (delivered tracksGet trackIds) \<Longrightarrow> sp_id t \<noteq> []"
  by (auto simp: delivered_def deliveredBy_def kept_has_id split: option.splits)

lemma batchLoop_step:
  "i < length trackIds \<Longrightarrow>
   batchLoop tracksGet trackIds i m =
     batchLoop tracksGet trackIds (i + 50)
       (foldl (\<lambda>m t. m(sp_id t \<mapsto> t)) m
          (deliveredBy tracksGet (i, take 50 (drop i trackIds))))"
  by (subst batchLoop.simps)
     (simp add: deliveredBy_def foldl_remember_kept Let_def split: option.split)

lemma batchLoop_done:
  "\<not> i < length trackIds \<Longrightarrow> batchLoop tracksGet trackIds i m = m"
  by (subst batchLoop.simps) simp

lemma batchLoop_from:
  "batchLoop tracksGet trackIds (50 * k) m =
     foldl (\<lambda>m t. m(sp_id t \<mapsto> t)) m
       (concat (map (\<lambda>j. deliveredBy tracksGet (50 * j, take 50 (drop (50 * j) trackIds)))
                  [k..<(length trackIds + 49) div 50]))"
proof (induction "(length trackIds + 49) div 50 - k" arbitrary: k m)
  case 0
  then have "\<not> 50 * k < length trackIds"
    by linarith
  moreover from 0 have "[k..<(length trackIds + 49) div 50] = []"
    by simp
  ultimately show ?case
    by (simp add: batchLoop_done)
next
  case (Suc d)
  then have lt: "k < (length trackIds + 49) div 50"
    by linarith
  then have "50 * k < length trackIds"
    by linarith
  then have "batchLoop tracksGet trackIds (50 * k) m =
     batchLoop tracksGet trackIds (50 * Suc k)
       (foldl (\<lambda>m t. m(sp_id t \<mapsto> t)) m
          (deliveredBy tracksGet (50 * k, take 50 (drop (50 * k) trackIds))))"
    using batchLoop_step [of "50 * k" trackIds tracksGet m] by (simp add: add.commute)
  moreover from Suc have "d = (length trackIds + 49) div 50 - Suc k"
    by linarith
  moreover from lt have "[k..<(length trackIds + 49) div 50]
      = k # [Suc k..<(length trackIds + 49) div 50]"
    by (rule upt_conv_Cons)
  ultimately show ?case
    using Suc.hyps(1) [of "Suc k"] by simp
qed

lemma batchLoop_delivered:
  "batchLoop tracksGet trackIds 0 Map.empty = lastDelivered tracksGet trackIds"
proof
  fix k
  have "batchLoop tracksGet trackIds (50 * 0) Map.empty =
     foldl (\<lambda>m t. m(sp_id t \<mapsto> t)) Map.empty (delivered tracksGet trackIds)"
    unfolding batchLoop_from by (simp add: delivered_def batchCalls_def comp_def)
  then show "batchLoop tracksGet trackIds 0 Map.empty k = lastDelivered tracksGet trackIds k"
    by (simp add: foldl_store_lookup lastDelivered_def split: option.split)
qed

lemma lastDelivered_empty_id: "lastDelivered tracksGet trackIds [] = None"
  by (auto simp: lastDelivered_def find_None_iff dest: delivered_has_id)

lemma fetchSongsData_rows:
  assumes "\<forall>r \<in> set tableRows. CHR ''/'' \<notin> set (trackIdMatch r)"
  shows "fetchSongsData (Some tableRows) tracksGet =
     Inr (map (\<lambda>r. case lastDelivered tracksGet
                         (scrapedTrackIds tableRows)
                         (trackIdMatch r) of
                 None \<Rightarrow> withScraped (scrapeRow r)
               | Some sp \<Rightarrow> withSpotify (scrapeRow r) sp)
            (take 100 tableRows))"
proof -
  have "\<forall>r \<in> set (take 100 tableRows). CHR ''/'' \<notin> set (trackIdMatch r)"
    using assms by (meson in_set_takeD)
  then show ?thesis
    by (simp add: fetchSongsData_def scrapedTrackIds_def Let_def batchLoop_delivered
        enrich_scrapeRow lastDelivered_empty_id)
qed

lemma lastDelivered_None:
  "lastDelivered tracksGet trackIds k = None
     \<longleftrightarrow> (\<forall>t \<in> set (delivered tracksGet trackIds). sp_id t \<noteq> k)"
  by (auto simp: lastDelivered_def find_None_iff)

lemma find_Some_member: "find P xs = Some x \<Longrightarrow> x \<in> set xs \<and> P x"
  by (induction xs) (auto split: if_splits)

lemma lastDelivered_Some:
  assumes "lastDelivered tracksGet trackIds k = Some sp"
  shows "sp \<in> set (delivered tracksGet trackIds) \<and> sp_id sp = k"
proof -
  from assms have "find (\<lambda>t. sp_id t = k) (rev (delivered tracksGet trackIds)) = Some sp"
    by (simp only: lastDelivered_def)
  then have "sp \<in> set (rev (delivered tracksGet trackIds)) \<and> sp_id sp = k"
    by (rule find_Some_member)
  then show ?thesis
    by simp
qed

text \<open>
  Claim C5, as the code has it. The identifiers matched in the links hold no slash. When
  the listing request succeeds, whatever batches fail, the fetch returns one item for each
  of the first 100 rows, in the order of the rows and with their scraped fields. An item
  for whose identifier no batch that succeeded delivered a track (its batch failed, the
  response held no track for it, or the row has no identifier) carries the fallback: one
  contributor with the scraped name and an empty link, and no images. Every other item
  carries the contributors and images of a delivered track with its identifier.
\<close>

theorem C5_every_item_kept_enriched_when_delivered:
  assumes "\<forall>r \<in> set tableRows. CHR ''/'' \<notin> set (trackIdMatch r)"
  shows "\<exists>items. fetchSongsData (Some tableRows) tracksGet = Inr items
     \<and> length items = length (take 100 tableRows)
     \<and> (\<forall>i < length items.
          position (items ! i) = rankCol (tableRows ! i)
          \<and> positionChange (items ! i) = changeCol (tableRows ! i)
          \<and> title (items ! i) = titleText (tableRows ! i)
          \<and> url (items ! i) = url (scrapeRow (tableRows ! i))
          \<and> days (items ! i) = daysCol (tableRows ! i)
          \<and> peakPosition (items ! i) = peakCol (tableRows ! i)
          \<and> dailyStreams (items ! i) = dailyCol (tableRows ! i)
          \<and> totalStreams (items ! i) = totalCol (tableRows ! i)
          \<and> ((\<forall>t \<in> set (delivered tracksGet (scrapedTrackIds tableRows)).
                 sp_id t \<noteq> trackIdMatch (tableRows ! i))
              \<longrightarrow> artists (items ! i)
                    = [\<lparr>artist_name = artistText (tableRows ! i), artist_url = []\<rparr>]
                  \<and> images (items ! i) = [])
          \<and> ((\<exists>t \<in> set (delivered tracksGet (scrapedTrackIds tableRows)).
                 sp_id t = trackIdMatch (tableRows ! i))
              \<longrightarrow> (\<exists>sp \<in> set (delivered tracksGet (scrapedTrackIds tableRows)).
                     sp_id sp = trackIdMatch (tableRows ! i)
                     \<and> artists (items ! i) = map enrichedArtist (sp_artists sp)
                     \<and> images (items ! i)
                         = (case sp_album_images sp of
                              None \<Rightarrow> []
                            | Some imgs \<Rightarrow> map enrichedImage imgs))))"
proof -
  let ?look = "lastDelivered tracksGet (scrapedTrackIds tableRows)"
  let ?item = "\<lambda>r. case ?look (trackIdMatch r) of
                      None \<Rightarrow> withScraped (scrapeRow r)
                    | Some sp \<Rightarrow> withSpotify (scrapeRow r) sp"
  let ?items = "map ?item (take 100 tableRows)"
  have fetched: "fetchSongsData (Some tableRows) tracksGet = Inr ?items"
    using assms by (rule fetchSongsData_rows)
  have len: "length ?items = length (take 100 tableRows)"
    by simp
  have each: "position (?items ! i) = rankCol (tableRows ! i)
          \<and> positionChange (?items ! i) = changeCol (tableRows ! i)
          \<and> title (?items ! i) = titleText (tableRows ! i)
          \<and> url (?items ! i) = url (scrapeRow (tableRows ! i))
          \<and> days (?items ! i) = daysCol (tableRows ! i)
          \<and> peakPosition (?items ! i) = peakCol (tableRows ! i)
          \<and> dailyStreams (?items ! i) = dailyCol (tableRows ! i)
          \<and> totalStreams (?items ! i) = totalCol (tableRows ! i)
          \<and> ((\<forall>t \<in> set (delivered tracksGet (scrapedTrackIds tableRows)).
                 sp_id t \<noteq> trackIdMatch (tableRows ! i))
              \<longrightarrow> artists (?items ! i)
                    = [\<lparr>artist_name = artistText (tableRows ! i), artist_url = []\<rparr>]
                  \<and> images (?items ! i) = [])
          \<and> ((\<exists>t \<in> set (delivered tracksGet (scrapedTrackIds tableRows)).
                 sp_id t = trackIdMatch (tableRows ! i))
              \<longrightarrow> (\<exists>sp \<in> set (delivered tracksGet (scrapedTrackIds tableRows)).
                     sp_id sp = trackIdMatch (tableRows ! i)
                     \<and> artists (?items ! i) = map enrichedArtist (sp_artists sp)
                     \<and> images (?items ! i)
                         = (case sp_album_images sp of
                              None \<Rightarrow> []
                            | Some imgs \<Rightarrow> map enrichedImage imgs)))"
    if i: "i < length ?items" for i
  proof -
    let ?r = "tableRows ! i"
    from i have i100: "i < length (take 100 tableRows)"
      by simp
    then have "take 100 tableRows ! i = ?r"
      by simp
    with nth_map [OF i100, of ?item] have nth: "?items ! i = ?item ?r"
      by (simp only:)
    show ?thesis
    proof (cases "?look (trackIdMatch ?r)")
      case None
      then have item: "?items ! i = withScraped (scrapeRow ?r)"
        using nth by simp
      from None have "\<forall>t \<in> set (delivered tracksGet (scrapedTrackIds tableRows)).
          sp_id t \<noteq> trackIdMatch ?r"
        by (simp only: lastDelivered_None)
      then show ?thesis
        unfolding item by (simp add: withScraped_def scrapeRow_def)
    next
      case (Some sp)
      then have item: "?items ! i = withSpotify (scrapeRow ?r) sp"
        using nth by simp
      from Some have "sp \<in> set (delivered tracksGet (scrapedTrackIds tableRows))
          \<and> sp_id sp = trackIdMatch ?r"
        by (rule lastDelivered_Some)
      then show ?thesis
        unfolding item by (auto simp: withSpotify_def scrapeRow_def)
    qed
  qed
  from fetched len each show ?thesis
    by blast
qed

text \<open>
  The example page with the first batch failing and the second delivering its track: the
  fetch returns all 51 items in rank order, the 50 of the failed batch with the fallback
  and the last one enriched.
\<close>

theorem C5_first_batch_fails_witness:
  "list_all (\<lambda>r. CHR ''/'' \<notin> set (trackIdMatch r)) examplePage
   \<and> batchCalls (scrapedTrackIds examplePage)
       = [(0, map trackIdMatch (take 50 examplePage)), (50, [trackIdMatch (exampleRow 50)])]
   \<and> fetchSongsData (Some examplePage) firstBatchFails
       = Inr (map exampleFallback [0..<50] @ [exampleEnriched 50])"
proof -
  have slash: "\<forall>r \<in> set examplePage. CHR ''/'' \<notin> set (trackIdMatch r)"
    by code_simp
  have calls: "batchCalls (scrapedTrackIds examplePage)
       = [(0, map trackIdMatch (take 50 examplePage)), (50, [trackIdMatch (exampleRow 50)])]"
    by code_simp
  have run: "fetchSongsData (Some examplePage) firstBatchFails
       = Inr (map exampleFallback [0..<50] @ [exampleEnriched 50])"
    by code_simp
  from C5_every_item_kept_enriched_when_delivered [OF slash, of firstBatchFails] slash calls run
  show ?thesis
    by (simp add: list_all_iff)
qed

text \<open>
  The example page with the first batch failing and the second succeeding with
  \<^verbatim>\<open>[null]\<close>: the last item belongs to the batch that succeeded and carries the fallback,
  not enriched data.
\<close>

theorem C5_item_of_successful_batch_without_enrichment:
  "batchCalls (scrapedTrackIds examplePage)
       = [(0, map trackIdMatch (take 50 examplePage)), (50, [trackIdMatch (exampleRow 50)])]
   \<and> firstBatchFailsSecondUnknown 0 (map trackIdMatch (take 50 examplePage)) = None
   \<and> firstBatchFailsSecondUnknown 50 [trackIdMatch (exampleRow 50)] = Some (Several [None])
   \<and> fetchSongsData (Some examplePage) firstBatchFailsSecondUnknown
       = Inr (map exampleFallback [0..<51])
   \<and> artists (exampleFallback 50) = [\<lparr>artist_name = ''Scraped Artist'', artist_url = []\<rparr>]
   \<and> images (exampleFallback 50) = []"
  by code_simp

end
